theory Spec2Isabelle
  imports Complex_Main "HOL-Library.Product_Lexorder"
begin

section \<open>JavaScript values\<close>

text \<open>
  The extension is JavaScript. Strings are lists of code units, modelled by \<open>char\<close>
  (so the model covers the Latin-1 range); numbers are IEEE doubles, modelled by the
  rationals together with the three non-finite values (negative zero is not
  distinguished: every use below goes through \<open>Math.max\<close>, a comparison or a
  truthiness test, where it behaves as zero). The values are the values of JSON: the
  options of a state request and the decisions of the language model reach the program
  through \<open>JSON.parse\<close> or through a message, so no property of an object or of an
  array is a function.
\<close>

datatype jsnum = NaN | PosInf | NegInf | Fin rat

datatype jsval =
    Undefined
  | Null
  | Bool bool
  | Num jsnum
  | Str string
  | Arr "jsval list"
  | Obj "(string \<times> jsval) list"

text \<open>
  Functions of the platform that no file of the repository defines: the parsing of a
  numeric string, the printing of a number, the product of a number and the literal
  \<open>0.7\<close> in double arithmetic, \<open>CSS.escape\<close>, the name a CSS parser reads from a text
  that is one identifier (\<open>None\<close> when the text is not one identifier), the value it
  reads from the text between the double quotes of an attribute selector (\<open>None\<close> when
  that text is not the inside of one string), \<open>JSON.parse\<close> (\<open>Inl\<close> with the message
  when it throws) and the printing of a time of day. They are parameters of the model.
\<close>

record builtins =
  StringToNumber :: "string \<Rightarrow> jsnum"
  NumberToString :: "jsnum \<Rightarrow> string"
  times_seven_tenths :: "rat \<Rightarrow> rat"
  CSS_escape :: "string \<Rightarrow> string"
  css_ident :: "string \<Rightarrow> string option"
  css_string :: "string \<Rightarrow> string option"
  JSON_parse :: "string \<Rightarrow> string + jsval"
  toLocaleTimeString :: "nat \<Rightarrow> string"

text \<open>Truthiness, as \<open>if (v)\<close>, \<open>v || w\<close> and \<open>Boolean(v)\<close> read it.\<close>

fun truthy :: "jsval \<Rightarrow> bool" where
  "truthy Undefined = False"
| "truthy Null = False"
| "truthy (Bool b) = b"
| "truthy (Num NaN) = False"
| "truthy (Num (Fin r)) = (r \<noteq> 0)"
| "truthy (Num _) = True"
| "truthy (Str s) = (s \<noteq> [])"
| "truthy (Arr _) = True"
| "truthy (Obj _) = True"

text \<open>\<open>a || b\<close> and \<open>a ?? b\<close>.\<close>

definition js_or :: "jsval \<Rightarrow> jsval \<Rightarrow> jsval" where
  "js_or a b = (if truthy a then a else b)"

definition nullish :: "jsval \<Rightarrow> bool" where
  "nullish v = (v = Undefined \<or> v = Null)"

definition js_coalesce :: "jsval \<Rightarrow> jsval \<Rightarrow> jsval" where
  "js_coalesce a b = (if nullish a then b else a)"

text \<open>
  Property read \<open>v.k\<close> on a value that is neither \<open>null\<close> nor \<open>undefined\<close>,
  for the keys the program reads (\<open>type\<close>, \<open>plan\<close>, \<open>actions\<close>, \<open>maxText\<close>, ...): an
  object yields its own property, every other value yields \<open>undefined\<close>, since none of
  these keys is a property of the string, number, boolean, array or object prototypes.
  An object lists each of its keys once.
\<close>

fun field :: "jsval \<Rightarrow> string \<Rightarrow> jsval" where
  "field (Obj kvs) k = (case map_of kvs k of Some v \<Rightarrow> v | None \<Rightarrow> Undefined)"
| "field _ k = Undefined"

fun join_with :: "string \<Rightarrow> string list \<Rightarrow> string" where
  "join_with sep [] = []"
| "join_with sep [s] = s"
| "join_with sep (s # t # ss) = s @ sep @ join_with sep (t # ss)"

text \<open>The exceptions that the program can run into.\<close>

datatype exn = TypeError | SyntaxError | DOMException

text \<open>
  The conversion of a value to a primitive, which \<open>Number(v)\<close>, a template literal
  \<open>`${v}`\<close> and the string parameters of the DOM apply to an object or an array, looks
  for the methods \<open>toString\<close> and \<open>valueOf\<close>. An object has them from its
  prototype, unless it has a property of its own under the name: a property \<open>toString\<close>
  of a JSON object is no function, \<open>valueOf\<close> of the prototype returns the object
  itself, and the conversion throws a \<open>TypeError\<close>. An array is joined from the
  conversions of its elements, \<open>null\<close> and \<open>undefined\<close> counting as empty, so its
  conversion throws when the conversion of one of the other elements does.
\<close>

fun converts :: "jsval \<Rightarrow> bool" where
  "converts (Obj kvs) = (map_of kvs ''toString'' = None)"
| "converts (Arr vs) = (\<forall>v \<in> set vs. nullish v \<or> converts v)"
| "converts v = True"

text \<open>The string of a value whose conversion completes.\<close>

fun string_of :: "builtins \<Rightarrow> jsval \<Rightarrow> string" where
  "string_of B Undefined = ''undefined''"
| "string_of B Null = ''null''"
| "string_of B (Bool b) = (if b then ''true'' else ''false'')"
| "string_of B (Num n) = NumberToString B n"
| "string_of B (Str s) = s"
| "string_of B (Arr vs) =
     join_with '','' (map (\<lambda>v. if nullish v then [] else string_of B v) vs)"
| "string_of B (Obj kvs) = ''[object Object]''"

text \<open>\<open>String(v)\<close>, which is what a template literal applies to an interpolated value.\<close>

definition ToString :: "builtins \<Rightarrow> jsval \<Rightarrow> exn + string" where
  "ToString B v = (if converts v then Inr (string_of B v) else Inl TypeError)"

text \<open>The number of a value whose conversion completes.\<close>

fun number_of :: "builtins \<Rightarrow> jsval \<Rightarrow> jsnum" where
  "number_of B Undefined = NaN"
| "number_of B Null = Fin 0"
| "number_of B (Bool b) = (if b then Fin 1 else Fin 0)"
| "number_of B (Num n) = n"
| "number_of B (Str s) = StringToNumber B s"
| "number_of B (Arr vs) = StringToNumber B (string_of B (Arr vs))"
| "number_of B (Obj kvs) = NaN"

text \<open>\<open>Number(v)\<close>.\<close>

definition ToNumber :: "builtins \<Rightarrow> jsval \<Rightarrow> exn + jsnum" where
  "ToNumber B v = (if converts v then Inr (number_of B v) else Inl TypeError)"

section \<open>content.js: limits\<close>

definition DEFAULT_MAX_ELEMENTS :: int where
  "DEFAULT_MAX_ELEMENTS = 120"

definition DEFAULT_MAX_TEXT :: int where
  "DEFAULT_MAX_TEXT = 4000"

text \<open>
  \<open>normalizeLimit(value, fallback, min, max)\<close>. \<open>Number(value)\<close> may throw;
  \<open>Number.isFinite\<close> fails exactly on the three non-finite numbers; the floor of a
  finite number is an integer, and the fallback and the bounds are integer literals at
  both call sites.
\<close>

definition normalizeLimit :: "builtins \<Rightarrow> jsval \<Rightarrow> int \<Rightarrow> int \<Rightarrow> int \<Rightarrow> exn + int" where
  "normalizeLimit B v fallback mn mx =
     (case ToNumber B v of
        Inl ex \<Rightarrow> Inl ex
      | Inr (Fin r) \<Rightarrow> Inr (min mx (max mn \<lfloor>r\<rfloor>))
      | Inr _ \<Rightarrow> Inr fallback)"

section \<open>content.js: the document\<close>

text \<open>
  The page is an HTML document: the tree of its elements from the document element
  (\<open>html\<close>) down, the place of \<open>document.body\<close> in it, whether the document is in
  quirks mode, and the few window and document properties the script reads. An element
  is identified by its path, the list of child indexes leading to it from the document
  element; document order is the preorder of the tree. An element is recorded with what
  reading its properties yields: \<open>tagName\<close>, \<open>localName\<close> and
  \<open>namespaceURI\<close>, its attributes, and what the browser computes for it
  (\<open>innerText\<close>, which is the empty string where the element has none,
  \<open>textContent\<close>, the computed style, the bounding box). The attributes are listed
  by name, each name once; the attributes the script reads (\<open>id\<close>, \<open>name\<close>,
  \<open>aria-label\<close>, the \<open>data-\<close> attributes, ...) are in no namespace, as the
  parser creates them.
\<close>

record rect =
  rect_x :: rat
  rect_y :: rat
  rect_width :: rat
  rect_height :: rat

record props =
  tagName :: string
  localName :: string
  namespaceURI :: string
  attrs :: "(string \<times> string) list"
  innerText :: string
  textContent :: string
  visibility :: string
  display :: string
  opacity :: string
  bounds :: rect
  isContentEditable :: bool

datatype node = Node props "node list"

fun node_props :: "node \<Rightarrow> props" where
  "node_props (Node p ks) = p"

fun node_children :: "node \<Rightarrow> node list" where
  "node_children (Node p ks) = ks"

record page =
  url :: string
  title :: string
  innerWidth :: rat
  innerHeight :: rat
  scrollX :: rat
  scrollY :: rat
  quirksMode :: bool
  root :: node
  body_path :: "nat list option"

fun node_at :: "node \<Rightarrow> nat list \<Rightarrow> node option" where
  "node_at n [] = Some n"
| "node_at (Node p ks) (i # is) = (if i < length ks then node_at (ks ! i) is else None)"

text \<open>All elements of a subtree in document order, as paths from its root.\<close>

fun paths_from :: "node \<Rightarrow> nat list list"
  and paths_of_children :: "nat \<Rightarrow> node list \<Rightarrow> nat list list" where
  "paths_from (Node p ks) = [] # paths_of_children 0 ks"
| "paths_of_children i [] = []"
| "paths_of_children i (k # ks) = map ((#) i) (paths_from k) @ paths_of_children (Suc i) ks"

definition all_elements :: "page \<Rightarrow> nat list list" where
  "all_elements pg = paths_from (root pg)"

definition element_at :: "page \<Rightarrow> nat list \<Rightarrow> props option" where
  "element_at pg p = map_option node_props (node_at (root pg) p)"

text \<open>\<open>document.body\<close>: \<open>None\<close> is \<open>null\<close>.\<close>

definition body_node :: "page \<Rightarrow> node option" where
  "body_node pg = (case body_path pg of Some b \<Rightarrow> node_at (root pg) b | None \<Rightarrow> None)"

text \<open>\<open>element.getAttribute(name)\<close>: \<open>None\<close> is \<open>null\<close>.\<close>

definition getAttribute :: "props \<Rightarrow> string \<Rightarrow> string option" where
  "getAttribute e name = map_of (attrs e) name"

text \<open>\<open>if (s)\<close> on the result of \<open>getAttribute\<close>: neither \<open>null\<close> nor empty.\<close>

fun present :: "string option \<Rightarrow> bool" where
  "present None = False"
| "present (Some s) = (s \<noteq> [])"

text \<open>\<open>element.id\<close> reflects the attribute, the empty string when it is absent.\<close>

definition element_id :: "props \<Rightarrow> string" where
  "element_id e = (case getAttribute e ''id'' of Some s \<Rightarrow> s | None \<Rightarrow> [])"

definition toLowerChar :: "char \<Rightarrow> char" where
  "toLowerChar c =
     (let n = (of_char c :: nat)
      in if (65 \<le> n \<and> n \<le> 90) \<or> (192 \<le> n \<and> n \<le> 222 \<and> n \<noteq> 215)
         then char_of (n + 32) else c)"

definition toLowerCase :: "string \<Rightarrow> string" where
  "toLowerCase s = map toLowerChar s"

text \<open>White space and line terminators of the language, within the range of \<open>char\<close>.\<close>

definition is_space :: "char \<Rightarrow> bool" where
  "is_space c = ((of_char c :: nat) \<in> {9, 10, 11, 12, 13, 32, 160})"

definition trim :: "string \<Rightarrow> string" where
  "trim s = rev (dropWhile is_space (rev (dropWhile is_space s)))"

text \<open>\<open>s.replace(/\s+/g, " ")\<close>: every maximal run of white space becomes one space.\<close>

fun collapse_from :: "bool \<Rightarrow> string \<Rightarrow> string" where
  "collapse_from in_run [] = []"
| "collapse_from in_run (c # cs) =
     (if is_space c
      then (if in_run then collapse_from True cs else CHR '' '' # collapse_from True cs)
      else c # collapse_from False cs)"

definition collapse_ws :: "string \<Rightarrow> string" where
  "collapse_ws s = collapse_from False s"

text \<open>\<open>document.getElementById(id)\<close>: the first element in document order with that id.\<close>

definition getElementById :: "page \<Rightarrow> string \<Rightarrow> props option" where
  "getElementById pg i =
     (case List.find (\<lambda>p. case element_at pg p of
                              Some e \<Rightarrow> getAttribute e ''id'' = Some i
                            | None \<Rightarrow> False) (all_elements pg) of
        Some p \<Rightarrow> element_at pg p
      | None \<Rightarrow> None)"

text \<open>
  How a type selector matches, in an HTML document: an element of the HTML namespace
  when its local name is the selector's name with the letters \<open>A\<close> to \<open>Z\<close> in
  lower case, an element of another namespace (SVG, MathML) when its local name is the
  selector's name letter for letter.
\<close>

definition asciiLowerChar :: "char \<Rightarrow> char" where
  "asciiLowerChar c =
     (let n = (of_char c :: nat) in if 65 \<le> n \<and> n \<le> 90 then char_of (n + 32) else c)"

definition asciiLower :: "string \<Rightarrow> string" where
  "asciiLower s = map asciiLowerChar s"

definition html_namespace :: string where
  "html_namespace = ''http://www.w3.org/1999/xhtml''"

definition isHTML :: "props \<Rightarrow> bool" where
  "isHTML e = (namespaceURI e = html_namespace)"

definition type_matches :: "string \<Rightarrow> props \<Rightarrow> bool" where
  "type_matches t e = (if isHTML e then localName e = asciiLower t else localName e = t)"

text \<open>
  \<open>document.querySelectorAll("a, button, input, textarea, select, [role=button],
  [contenteditable=true]")\<close>, in document order.
\<close>

definition is_candidate :: "props \<Rightarrow> bool" where
  "is_candidate e =
     ((\<exists>t \<in> set [''a'', ''button'', ''input'', ''textarea'', ''select'']. type_matches t e)
      \<or> getAttribute e ''role'' = Some ''button''
      \<or> getAttribute e ''contenteditable'' = Some ''true'')"

definition candidates :: "page \<Rightarrow> nat list list" where
  "candidates pg =
     filter (\<lambda>p. case element_at pg p of Some e \<Rightarrow> is_candidate e | None \<Rightarrow> False)
       (all_elements pg)"

section \<open>content.js: perception\<close>

definition isVisible :: "props \<Rightarrow> bool" where
  "isVisible e =
     (if visibility e = ''hidden'' \<or> display e = ''none'' then False
      else if rect_width (bounds e) < 4 \<or> rect_height (bounds e) < 4 then False
      else if opacity e = ''0'' then False
      else True)"

text \<open>The \<open>innerText\<close> of the element that \<open>aria-labelledby\<close> names, if any.\<close>

definition labelledBy_text :: "page \<Rightarrow> props \<Rightarrow> string option" where
  "labelledBy_text pg e =
     (let labelledBy = getAttribute e ''aria-labelledby''
      in if present labelledBy
         then map_option innerText (getElementById pg (the labelledBy))
         else None)"

definition getLabel :: "page \<Rightarrow> props \<Rightarrow> string" where
  "getLabel pg e =
     (let aria = getAttribute e ''aria-label'' in
      if present aria then trim (the aria)
      else if present (labelledBy_text pg e) then trim (the (labelledBy_text pg e))
      else
        let placeholder = getAttribute e ''placeholder'' in
        if present placeholder then trim (the placeholder)
        else
          let alt = getAttribute e ''alt'' in
          if present alt then trim (the alt)
          else
            let text = (if innerText e \<noteq> [] then innerText e else textContent e)
            in take 160 (trim text))"

text \<open>\<open>escapeAttr\<close>: every double quote gets a backslash in front.\<close>

definition escapeAttr :: "string \<Rightarrow> string" where
  "escapeAttr v = concat (map (\<lambda>c. if c = CHR 0x22 then [CHR 0x5C, CHR 0x22] else [c]) v)"

text \<open>
  The selectors \<open>getSelector\<close> can produce, in abstract syntax: \<open>#id\<close>, an
  attribute selector with or without a tag name in front, and a chain of child
  combinators whose steps are a tag name with an optional \<open>:nth-of-type(k)\<close>.
  \<open>selector_text\<close> is the string the source builds.
\<close>

datatype selector =
    IdSel string
  | AttrSel "string option" string string
  | PathSel "(string \<times> nat option) list"

fun show_nat :: "nat \<Rightarrow> string" where
  "show_nat n =
     (if n < 10 then [char_of (48 + n)]
      else show_nat (n div 10) @ [char_of (48 + n mod 10)])"

fun step_text :: "string \<times> nat option \<Rightarrow> string" where
  "step_text (t, None) = t"
| "step_text (t, Some k) = t @ '':nth-of-type('' @ show_nat k @ '')''"

fun selector_text :: "builtins \<Rightarrow> selector \<Rightarrow> string" where
  "selector_text B (IdSel i) = ''#'' @ CSS_escape B i"
| "selector_text B (AttrSel t a v) =
     (case t of Some tg \<Rightarrow> tg | None \<Rightarrow> []) @ ''['' @ a @ ''='' @ [CHR 0x22] @ escapeAttr v
       @ [CHR 0x22] @ '']''"
| "selector_text B (PathSel steps) = join_with '' > '' (map step_text steps)"

text \<open>
  One step of the structural path, for child \<open>i\<close> of a parent with children \<open>ks\<close>:
  the lower-case tag name, and the one-based position among the siblings of the same tag
  name when there is more than one of them.
\<close>

definition same_tag :: "node \<Rightarrow> node \<Rightarrow> bool" where
  "same_tag a b = (tagName (node_props a) = tagName (node_props b))"

definition path_step :: "node list \<Rightarrow> nat \<Rightarrow> string \<times> nat option" where
  "path_step ks i =
     (let n = ks ! i;
          siblings = filter (same_tag n) ks
      in (toLowerCase (tagName (node_props n)),
          if length siblings > 1
          then Some (length (filter (same_tag n) (take i ks)) + 1)
          else None))"

text \<open>
  The source climbs from the element through \<open>parentElement\<close> and puts each step in
  front of the path; the model descends along the path, which yields the same list.
  \<open>path_steps n q\<close> are the steps of the elements on the path \<open>q\<close> below \<open>n\<close>.
\<close>

fun path_steps :: "node \<Rightarrow> nat list \<Rightarrow> (string \<times> nat option) list" where
  "path_steps n [] = []"
| "path_steps (Node pr ks) (i # is) =
     (if i < length ks then path_step ks i # path_steps (ks ! i) is else [])"

text \<open>
  The climb ends at \<open>document.body\<close>, which gets no step. An element that is not
  below the body (the document has none, or the element is in the head) is followed up
  to the document element, which has no parent element, hence no siblings to count, and
  gets its tag name as the first step.
\<close>

definition below_body :: "page \<Rightarrow> nat list \<Rightarrow> bool" where
  "below_body pg p =
     (case body_path pg of
        None \<Rightarrow> False
      | Some b \<Rightarrow> node_at (root pg) b \<noteq> None \<and> take (length b) p = b)"

definition structural_path :: "page \<Rightarrow> nat list \<Rightarrow> (string \<times> nat option) list" where
  "structural_path pg p =
     (if below_body pg p
      then path_steps (the (body_node pg)) (drop (length (the (body_path pg))) p)
      else (toLowerCase (tagName (node_props (root pg))), None) # path_steps (root pg) p)"

definition testId_of :: "props \<Rightarrow> string option" where
  "testId_of e =
     (if present (getAttribute e ''data-testid'') then getAttribute e ''data-testid''
      else if present (getAttribute e ''data-test'') then getAttribute e ''data-test''
      else getAttribute e ''data-qa'')"

text \<open>\<open>getSelector(element)\<close>, for the element \<open>e\<close> found at path \<open>p\<close>.\<close>

definition getSelector :: "page \<Rightarrow> nat list \<Rightarrow> props \<Rightarrow> selector" where
  "getSelector pg p e =
     (if element_id e \<noteq> [] then IdSel (element_id e)
      else if present (testId_of e) then AttrSel None ''data-testid'' (the (testId_of e))
      else if present (getAttribute e ''name'')
      then AttrSel (Some (toLowerCase (tagName e))) ''name'' (the (getAttribute e ''name''))
      else if present (getAttribute e ''aria-label'')
      then AttrSel (Some (toLowerCase (tagName e))) ''aria-label''
             (the (getAttribute e ''aria-label''))
      else PathSel (structural_path pg p))"

text \<open>
  What the selectors mean to \<open>document.querySelector\<close>. The model reads a selector
  when the CSS parser reads one identifier from the escaped id and from each tag name,
  and one string from the quoted text; it says nothing about a selector whose text
  reads otherwise (a tag name such as \<open>o:p\<close> is no identifier: the parser takes it for
  something else or rejects it). An id selector matches the elements whose id is the
  identifier read, compared letter for letter, or without regard to the case of the
  letters \<open>A\<close> to \<open>Z\<close> when the document is in quirks mode; an attribute selector
  those whose attribute is the string read, letter for letter (\<open>data-testid\<close>,
  \<open>name\<close> and \<open>aria-label\<close> are not among the attributes whose values HTML compares
  without regard to case); a tag name is a type selector; \<open>:nth-of-type(k)\<close> counts
  the preceding siblings of the same type, that is of the same namespace and local name.
  In a chain of child combinators the last step is matched by the element, the step
  before by its parent, and so on.
\<close>

definition same_type :: "props \<Rightarrow> props \<Rightarrow> bool" where
  "same_type a b = (namespaceURI a = namespaceURI b \<and> localName a = localName b)"

text \<open>The one-based position of an element among its siblings of the same type.\<close>

definition type_index :: "page \<Rightarrow> nat list \<Rightarrow> nat" where
  "type_index pg p =
     (if p = [] then 1
      else case node_at (root pg) (butlast p) of
             None \<Rightarrow> 0
           | Some parent \<Rightarrow>
               let ks = node_children parent; i = last p
               in if i < length ks
                  then length (filter (\<lambda>s. same_type (node_props (ks ! i)) (node_props s))
                                 (take i ks)) + 1
                  else 0)"

definition step_matches :: "builtins \<Rightarrow> page \<Rightarrow> string \<times> nat option \<Rightarrow> nat list \<Rightarrow> bool" where
  "step_matches B pg st p =
     (case element_at pg p of
        None \<Rightarrow> False
      | Some e \<Rightarrow>
          (case css_ident B (fst st) of None \<Rightarrow> False | Some t \<Rightarrow> type_matches t e)
          \<and> (case snd st of None \<Rightarrow> True | Some k \<Rightarrow> type_index pg p = k))"

text \<open>The steps are given last first.\<close>

fun chain_matches ::
  "builtins \<Rightarrow> page \<Rightarrow> (string \<times> nat option) list \<Rightarrow> nat list \<Rightarrow> bool" where
  "chain_matches B pg [] p = True"
| "chain_matches B pg (st # sts) p =
     (step_matches B pg st p
      \<and> (sts = [] \<or> (p \<noteq> [] \<and> chain_matches B pg sts (butlast p))))"

fun readable :: "builtins \<Rightarrow> selector \<Rightarrow> bool" where
  "readable B (IdSel i) = (css_ident B (CSS_escape B i) \<noteq> None)"
| "readable B (AttrSel t a v) =
     ((case t of None \<Rightarrow> True | Some tg \<Rightarrow> css_ident B tg \<noteq> None)
      \<and> css_string B (escapeAttr v) \<noteq> None)"
| "readable B (PathSel steps) = list_all (\<lambda>st. css_ident B (fst st) \<noteq> None) steps"

definition id_matches :: "page \<Rightarrow> string \<Rightarrow> props \<Rightarrow> bool" where
  "id_matches pg i e =
     (case getAttribute e ''id'' of
        None \<Rightarrow> False
      | Some a \<Rightarrow> a \<noteq> [] \<and> (if quirksMode pg then asciiLower a = asciiLower i else a = i))"

fun sel_matches :: "builtins \<Rightarrow> page \<Rightarrow> selector \<Rightarrow> nat list \<Rightarrow> bool" where
  "sel_matches B pg (IdSel i) p =
     (case element_at pg p of
        None \<Rightarrow> False
      | Some e \<Rightarrow> (case css_ident B (CSS_escape B i) of
                     None \<Rightarrow> False
                   | Some v \<Rightarrow> id_matches pg v e))"
| "sel_matches B pg (AttrSel t a v) p =
     (case element_at pg p of
        None \<Rightarrow> False
      | Some e \<Rightarrow>
          (case t of
             None \<Rightarrow> True
           | Some tg \<Rightarrow> (case css_ident B tg of None \<Rightarrow> False | Some n \<Rightarrow> type_matches n e))
          \<and> css_string B (escapeAttr v) \<noteq> None
          \<and> getAttribute e a = css_string B (escapeAttr v))"
| "sel_matches B pg (PathSel steps) p = (steps \<noteq> [] \<and> chain_matches B pg (rev steps) p)"

text \<open>
  \<open>document.querySelector\<close> with a derived selector: the empty string, which is the
  path of the body, makes it throw; a selector the model does not read yields \<open>None\<close>;
  otherwise the result is the first element in document order that matches.
\<close>

definition querySelector_sel ::
  "builtins \<Rightarrow> page \<Rightarrow> selector \<Rightarrow> (exn + nat list option) option" where
  "querySelector_sel B pg sel =
     (if sel = PathSel [] then Some (Inl SyntaxError)
      else if \<not> readable B sel then None
      else Some (Inr (List.find (sel_matches B pg sel) (all_elements pg))))"

text \<open>\<open>Math.round\<close> on a finite number: halves go up.\<close>

definition Math_round :: "rat \<Rightarrow> int" where
  "Math_round r = \<lfloor>r + 1 / 2\<rfloor>"

record descriptor =
  d_tag :: string
  d_type :: "string option"
  d_label :: string
  d_selector :: string
  d_x :: int
  d_y :: int
  d_width :: int
  d_height :: int

record perceived =
  ps_url :: string
  ps_title :: string
  ps_width :: rat
  ps_height :: rat
  ps_scrollX :: rat
  ps_scrollY :: rat
  elements :: "descriptor list"
  textSnippet :: string

definition describe :: "builtins \<Rightarrow> page \<Rightarrow> nat list \<Rightarrow> props \<Rightarrow> descriptor" where
  "describe B pg p e =
     \<lparr> d_tag = toLowerCase (tagName e),
       d_type = getAttribute e ''type'',
       d_label = getLabel pg e,
       d_selector = selector_text B (getSelector pg p e),
       d_x = Math_round (rect_x (bounds e)),
       d_y = Math_round (rect_y (bounds e)),
       d_width = Math_round (rect_width (bounds e)),
       d_height = Math_round (rect_height (bounds e)) \<rparr>"

text \<open>
  The loop over the candidates: an invisible candidate is skipped, a visible one is
  pushed, and the loop breaks as soon as the list has \<open>maxElements\<close> entries. A path
  that denotes no element is what \<open>isVisible\<close> rejects first, \<open>!element\<close>.
\<close>

fun collect_loop ::
  "builtins \<Rightarrow> page \<Rightarrow> int \<Rightarrow> nat list list \<Rightarrow> descriptor list \<Rightarrow> descriptor list" where
  "collect_loop B pg maxElements [] acc = acc"
| "collect_loop B pg maxElements (p # ps) acc =
     (case element_at pg p of
        None \<Rightarrow> collect_loop B pg maxElements ps acc
      | Some e \<Rightarrow>
          if \<not> isVisible e then collect_loop B pg maxElements ps acc
          else
            let acc' = acc @ [describe B pg p e]
            in if int (length acc') \<ge> maxElements then acc'
               else collect_loop B pg maxElements ps acc')"

text \<open>\<open>document.body?.innerText || ""\<close>.\<close>

definition body_text :: "page \<Rightarrow> string" where
  "body_text pg = (case body_node pg of Some n \<Rightarrow> innerText (node_props n) | None \<Rightarrow> [])"

text \<open>
  \<open>collectPageState(options = {})\<close>. The default applies to \<open>undefined\<close> only; reading
  a property of \<open>null\<close> throws, and so does \<open>normalizeLimit\<close> on a limit that
  \<open>Number\<close> cannot convert. The comparator of the sort orders by \<open>rect.y\<close>, then
  \<open>rect.x\<close>, and the sort is stable.
\<close>

definition collectPageState :: "builtins \<Rightarrow> page \<Rightarrow> jsval \<Rightarrow> exn + perceived" where
  "collectPageState B pg options =
     (if options = Null then Inl TypeError
      else
        let opts = (if options = Undefined then Obj [] else options)
        in case normalizeLimit B (field opts ''maxElements'') DEFAULT_MAX_ELEMENTS 10 500 of
             Inl ex \<Rightarrow> Inl ex
           | Inr maxElements \<Rightarrow>
               (case normalizeLimit B (field opts ''maxText'') DEFAULT_MAX_TEXT 0 20000 of
                  Inl ex \<Rightarrow> Inl ex
                | Inr maxText \<Rightarrow>
                    let found = collect_loop B pg maxElements (candidates pg) [];
                        sorted_elements = sort_key (\<lambda>d. (d_y d, d_x d)) found;
                        snippet = (if maxText > 0
                                   then take (nat maxText) (trim (collapse_ws (body_text pg)))
                                   else [])
                    in Inr \<lparr> ps_url = url pg, ps_title = title pg,
                             ps_width = innerWidth pg, ps_height = innerHeight pg,
                             ps_scrollX = scrollX pg, ps_scrollY = scrollY pg,
                             elements = sorted_elements, textSnippet = snippet \<rparr>))"

section \<open>content.js: actions\<close>

text \<open>
  An action arrives as a JSON value. What \<open>performAction\<close> does to the page is
  recorded as the list of operations it performs on the document, in order, each with
  the JavaScript value it is given; what the page's own listeners do in response is
  outside the program. Two things are parameters: the resolution of the selector of an
  action, \<open>document.querySelector\<close> on text the language model wrote, which may throw
  on text that is no selector; and which operations throw instead of completing (an
  element without a \<open>click\<close> method, a file input that is assigned a text, a value that
  the property cannot convert), \<open>None\<close> meaning that the operation completes.
\<close>

datatype dom_effect =
    Wait jsnum
  | ScrollBy jsnum
  | ScrollIntoView "nat list"
  | Focus "nat list"
  | Click "nat list"
  | SetInnerText "nat list" jsval
  | SetValue "nat list" jsval
  | DispatchEvent "nat list" string
  | KeyDown "nat list" jsval

datatype reply = Ok string | Fail string

text \<open>
  The operations are performed in order after those already done; the first one that
  throws ends the function with its exception: \<open>Inl\<close> carries it and the operations
  completed before it.
\<close>

fun do_all ::
  "(dom_effect \<Rightarrow> exn option) \<Rightarrow> dom_effect list \<Rightarrow> dom_effect list
     \<Rightarrow> (exn \<times> dom_effect list) + dom_effect list" where
  "do_all throws sofar [] = Inr sofar"
| "do_all throws sofar (ef # efs) =
     (case throws ef of
        Some ex \<Rightarrow> Inl (ex, sofar)
      | None \<Rightarrow> do_all throws (sofar @ [ef]) efs)"

text \<open>\<open>haystack.includes(needle)\<close>.\<close>

fun is_prefix :: "string \<Rightarrow> string \<Rightarrow> bool" where
  "is_prefix [] s = True"
| "is_prefix (c # cs) [] = False"
| "is_prefix (c # cs) (d # ds) = (c = d \<and> is_prefix cs ds)"

fun str_includes :: "string \<Rightarrow> string \<Rightarrow> bool" where
  "str_includes [] needle = (needle = [])"
| "str_includes (c # cs) needle = (is_prefix needle (c # cs) \<or> str_includes cs needle)"

definition label_matches :: "page \<Rightarrow> string \<Rightarrow> nat list \<Rightarrow> bool" where
  "label_matches pg needle p =
     (case element_at pg p of
        None \<Rightarrow> False
      | Some e \<Rightarrow>
          let label = toLowerCase (getLabel pg e)
          in label \<noteq> [] \<and> str_includes label needle)"

text \<open>
  \<open>resolveTarget(action)\<close>: the selector first, when it is truthy and resolves; then
  the first candidate whose label contains the text, compared in lower case. A truthy
  selector is converted to a string, which may throw. A truthy \<open>text\<close> that is no
  string has no \<open>toLowerCase\<close>, which throws. A path that denotes no element of the
  page counts as no element.
\<close>

definition resolve_by_text :: "page \<Rightarrow> jsval \<Rightarrow> exn + nat list option" where
  "resolve_by_text pg text =
     (if \<not> truthy text then Inr None
      else case text of
        Str t \<Rightarrow> Inr (List.find (label_matches pg (toLowerCase t)) (candidates pg))
      | _ \<Rightarrow> Inl TypeError)"

definition resolveTarget ::
  "builtins \<Rightarrow> (string \<Rightarrow> exn + nat list option) \<Rightarrow> page \<Rightarrow> jsval \<Rightarrow> exn + nat list option" where
  "resolveTarget B querySelector pg action =
     (if truthy (field action ''selector'')
      then (case ToString B (field action ''selector'') of
              Inl ex \<Rightarrow> Inl ex
            | Inr sel \<Rightarrow>
                (case querySelector sel of
                   Inl ex \<Rightarrow> Inl ex
                 | Inr (Some p) \<Rightarrow>
                     (if element_at pg p \<noteq> None then Inr (Some p)
                      else resolve_by_text pg (field action ''text''))
                 | Inr None \<Rightarrow> resolve_by_text pg (field action ''text'')))
      else resolve_by_text pg (field action ''text''))"

definition jsnum_times_sign :: "jsnum \<Rightarrow> bool \<Rightarrow> jsnum" where
  "jsnum_times_sign n up =
     (if \<not> up then n
      else case n of NaN \<Rightarrow> NaN | PosInf \<Rightarrow> NegInf | NegInf \<Rightarrow> PosInf | Fin r \<Rightarrow> Fin (- r))"

text \<open>The value a \<open>type\<close> action assigns: \<open>action.value ?? action.text ?? ""\<close>.\<close>

definition typed_value :: "jsval \<Rightarrow> jsval" where
  "typed_value action =
     js_coalesce (js_coalesce (field action ''value'') (field action ''text'')) (Str [])"

text \<open>
  The last operations of a branch and its reply: when they all complete, the reply is
  sent with every operation done.
\<close>

definition finish_with ::
  "(dom_effect \<Rightarrow> exn option) \<Rightarrow> dom_effect list \<Rightarrow> dom_effect list \<Rightarrow> reply
     \<Rightarrow> (exn \<times> dom_effect list) + (dom_effect list \<times> reply)" where
  "finish_with throws sofar efs r =
     (case do_all throws sofar efs of
        Inl failure \<Rightarrow> Inl failure
      | Inr all_done \<Rightarrow> Inr (all_done, r))"

text \<open>
  \<open>performAction(action)\<close>: the operations on the document and the reply, or the
  exception that rejects the promise (then no reply is sent) with the operations
  completed before it. The target is scrolled into view before the kind of the action
  is looked at. The constructor of the keyboard event converts the key to a string, as
  the reply does after it.
\<close>

definition performAction ::
  "builtins \<Rightarrow> (string \<Rightarrow> exn + nat list option) \<Rightarrow> (dom_effect \<Rightarrow> exn option) \<Rightarrow> page
     \<Rightarrow> jsval \<Rightarrow> (exn \<times> dom_effect list) + (dom_effect list \<times> reply)" where
  "performAction B querySelector throws pg action =
     (let type = (if nullish action then Undefined else field action ''type'') in
      if \<not> truthy type then Inr ([], Fail ''Missing action type'')
      else if type = Str ''wait'' then
        (case ToNumber B (js_or (js_or (field action ''ms'') (field action ''duration''))
                            (Num (Fin 500))) of
           Inl ex \<Rightarrow> Inl (ex, [])
         | Inr ms \<Rightarrow>
             finish_with throws [] [Wait ms] (Ok (''waited '' @ NumberToString B ms @ ''ms'')))
      else if type = Str ''scroll'' then
        (case ToNumber B (js_or (field action ''amount'')
                            (Num (Fin (of_int (Math_round
                                                 (times_seven_tenths B (innerHeight pg))))))) of
           Inl ex \<Rightarrow> Inl (ex, [])
         | Inr amount \<Rightarrow>
             let up = (field action ''direction'' = Str ''up'')
             in finish_with throws [] [ScrollBy (jsnum_times_sign amount up)]
                  (Ok (if up then ''scrolled up'' else ''scrolled down'')))
      else
        case resolveTarget B querySelector pg action of
          Inl ex \<Rightarrow> Inl (ex, [])
        | Inr None \<Rightarrow> Inr ([], Fail ''Target not found'')
        | Inr (Some p) \<Rightarrow>
            (case do_all throws [] [ScrollIntoView p] of
               Inl failure \<Rightarrow> Inl failure
             | Inr scrolled \<Rightarrow>
                 if type = Str ''click'' then
                   finish_with throws scrolled [Focus p, Click p] (Ok ''clicked'')
                 else if type = Str ''type'' then
                   (let v = typed_value action
                    in finish_with throws scrolled
                         [Focus p,
                          (if (case element_at pg p of Some e \<Rightarrow> isContentEditable e
                               | None \<Rightarrow> False)
                           then SetInnerText p v else SetValue p v),
                          DispatchEvent p ''input'', DispatchEvent p ''change'']
                         (Ok ''typed''))
                 else if type = Str ''key'' then
                   (let k = js_or (js_or (field action ''key'') (field action ''value''))
                              (Str ''Enter'')
                    in case ToString B k of
                         Inl ex \<Rightarrow> Inl (ex, scrolled)
                       | Inr shown \<Rightarrow>
                           finish_with throws scrolled [KeyDown p k] (Ok (''key '' @ shown)))
                 else
                   (case ToString B type of
                      Inl ex \<Rightarrow> Inl (ex, scrolled)
                    | Inr shown \<Rightarrow> Inr (scrolled, Fail (''Unsupported action: '' @ shown)))))"

section \<open>The background script: state, messages and the environment\<close>

record run_state =
  running :: bool
  stopRequested :: bool
  tabId :: "nat option"
  logs :: "string list"
  startedAt :: "nat option"
  stoppedAt :: "nat option"

text \<open>What \<open>chrome.runtime.sendMessage\<close> pushes to the popup.\<close>

datatype message =
    AGENT_LOG string
  | AGENT_STATUS bool "nat option" "nat option" "string list"

text \<open>
  Everything the background script does to the outside, in order: the messages it
  sends and the calls it issues (script injection, the two requests to the tab, the
  screenshot, the model request, the timer). \<open>Spawned\<close> records an invocation of
  \<open>runAgent\<close> that passed the running guard while the run under study was suspended,
  which can happen while the run reads its settings, before it sets \<open>running\<close>. From
  then on two loops share the run state. The model records the invocation and does not
  follow it: a trace with a \<open>Spawned\<close> event describes the program up to that event
  only, and the properties below that speak of a whole run assume that there is none.
\<close>

datatype event =
    Sent message
  | InjectScript nat
  | CollectState nat jsval
  | CaptureScreenshot nat
  | CallModel nat bool
  | PerformAction nat jsval
  | Sleep nat
  | Spawned nat string

text \<open>The messages the popup sends to the background script.\<close>

datatype command =
    POPUP_START nat string
  | POPUP_STOP
  | POPUP_GET_STATUS
  | POPUP_CLEAR_LOG

text \<open>
  The places where \<open>runAgent\<close> is suspended: at the settings, at the injection, in
  the perception of a step (until the first of the state request and the screenshot has
  settled, and then until the other has), at the model request of a step, and for action
  \<open>k\<close> of a step at its round trip to the tab and at the delay after it.
\<close>

datatype point =
    AtSettings
  | AtInject
  | AtCollect nat
  | AtJoin nat
  | AtModel nat
  | AtPerform nat nat
  | AtSleep nat nat

record settings =
  apiKey :: string
  model :: string
  maxSteps :: nat
  stepDelayMs :: nat
  fastMode :: bool

text \<open>
  The environment of one run: what each awaited operation yields (\<open>Inl\<close> carries the
  message of the error it rejects with), whether in a step the screenshot settles before
  the state request does, which commands the popup delivers while the run is suspended
  at a point, and how much time passes there. The settings are the record
  \<open>getSettings\<close> returns, defaults applied, with the step budget and the delay as
  natural numbers (the popup stores finite numbers, the budget above zero). The model's
  answer is given as the \<open>text\<close> fields of the parts of its first candidate (\<open>None\<close>
  for a part without text). The tab's answer to an action is the reply of
  \<open>performAction\<close>, or nothing. Times are natural numbers.
\<close>

record env =
  settings_result :: "string + settings"
  inject_result :: "string option"
  collect_result :: "nat \<Rightarrow> string + perceived"
  capture_result :: "nat \<Rightarrow> string + string"
  capture_first :: "nat \<Rightarrow> bool"
  model_result :: "nat \<Rightarrow> string + string option list"
  action_result :: "nat \<Rightarrow> nat \<Rightarrow> string + reply option"
  incoming :: "point \<Rightarrow> command list"
  elapsed :: "point \<Rightarrow> nat"

record world =
  rs :: run_state
  trace :: "event list"
  now :: nat

text \<open>The calls among the events: everything that is neither a message nor a spawn.\<close>

fun is_call :: "event \<Rightarrow> bool" where
  "is_call (Sent m) = False"
| "is_call (Spawned tab instruction) = False"
| "is_call e = True"

definition calls :: "event list \<Rightarrow> event list" where
  "calls evs = filter is_call evs"

definition emit :: "event \<Rightarrow> world \<Rightarrow> world" where
  "emit e w = w\<lparr>trace := trace w @ [e]\<rparr>"

definition log_line :: "builtins \<Rightarrow> nat \<Rightarrow> string \<Rightarrow> string" where
  "log_line B t entry = ''['' @ toLocaleTimeString B t @ ''] '' @ entry"

definition log :: "builtins \<Rightarrow> string \<Rightarrow> world \<Rightarrow> world" where
  "log B entry w =
     (let line = log_line B (now w) entry
      in emit (Sent (AGENT_LOG line)) (w\<lparr>rs := (rs w)\<lparr>logs := logs (rs w) @ [line]\<rparr>\<rparr>))"

definition sendStatus :: "world \<Rightarrow> world" where
  "sendStatus w =
     emit (Sent (AGENT_STATUS (running (rs w)) (startedAt (rs w)) (stoppedAt (rs w))
                   (logs (rs w)))) w"

text \<open>
  The message listener. \<open>POPUP_START\<close> calls \<open>runAgent\<close>, whose first statement
  is the running guard: while a run is running the call logs and returns. Otherwise the
  call goes on as a second invocation, of which the model records the start only.
\<close>

fun handle :: "builtins \<Rightarrow> command \<Rightarrow> world \<Rightarrow> world" where
  "handle B (POPUP_START tab instruction) w =
     (if running (rs w) then log B ''Agent already running.'' w
      else emit (Spawned tab instruction) w)"
| "handle B POPUP_STOP w = sendStatus (w\<lparr>rs := (rs w)\<lparr>stopRequested := True\<rparr>\<rparr>)"
| "handle B POPUP_GET_STATUS w = w"
| "handle B POPUP_CLEAR_LOG w = sendStatus (w\<lparr>rs := (rs w)\<lparr>logs := []\<rparr>\<rparr>)"

fun handle_all :: "builtins \<Rightarrow> command list \<Rightarrow> world \<Rightarrow> world" where
  "handle_all B [] w = w"
| "handle_all B (c # cs) w = handle_all B cs (handle B c w)"

text \<open>An await: time passes and the listener runs for every command that arrives.\<close>

definition suspend :: "builtins \<Rightarrow> env \<Rightarrow> point \<Rightarrow> world \<Rightarrow> world" where
  "suspend B E pt w = handle_all B (incoming E pt) (w\<lparr>now := now w + elapsed E pt\<rparr>)"

section \<open>The background script: helpers of the loop\<close>

definition ensureContentScript :: "builtins \<Rightarrow> env \<Rightarrow> nat \<Rightarrow> world \<Rightarrow> bool \<times> world" where
  "ensureContentScript B E tab w =
     (let w1 = suspend B E AtInject (emit (InjectScript tab) w)
      in case inject_result E of
           None \<Rightarrow> (True, w1)
         | Some msg \<Rightarrow> (False, log B (''Failed to inject content script: '' @ msg) w1))"

fun split_on :: "char \<Rightarrow> string \<Rightarrow> string list" where
  "split_on c [] = [[]]"
| "split_on c (x # xs) =
     (if x = c then [] # split_on c xs
      else case split_on c xs of
             h # t \<Rightarrow> (x # h) # t
           | [] \<Rightarrow> [[x]])"

text \<open>
  \<open>captureScreenshot\<close>, after its two calls have resolved with the data URL (empty
  when there is none): the part between the first and the second comma, or \<open>null\<close>.
\<close>

definition screenshot_of :: "string \<Rightarrow> string option" where
  "screenshot_of dataUrl =
     (if dataUrl = [] then None
      else case split_on CHR '','' dataUrl of
             _ # base64 # _ \<Rightarrow> (if base64 = [] then None else Some base64)
           | _ \<Rightarrow> None)"

definition collectOptions :: "settings \<Rightarrow> jsval" where
  "collectOptions S =
     (if fastMode S
      then Obj [(''maxElements'', Num (Fin 60)), (''maxText'', Num (Fin 0))]
      else Obj [(''maxElements'', Num (Fin 120)), (''maxText'', Num (Fin 4000))])"

text \<open>
  The handler on the screenshot promise, run when the capture has settled: a failure
  is logged and becomes \<open>null\<close>.
\<close>

definition capture_settled ::
  "builtins \<Rightarrow> env \<Rightarrow> nat \<Rightarrow> world \<Rightarrow> string option \<times> world" where
  "capture_settled B E step w =
     (case capture_result E step of
        Inl msg \<Rightarrow> (None, log B (''Screenshot failed: '' @ msg) w)
      | Inr dataUrl \<Rightarrow> (screenshot_of dataUrl, w))"

text \<open>
  The perception of one step. In fast mode the state request is the only operation
  awaited. Otherwise the state request and the screenshot are issued together and
  joined with \<open>Promise.all\<close>: the handler of the screenshot runs when the capture
  settles, before or after the state request has; a state request that fails ends the
  join at once, is logged and ends the loop (\<open>None\<close>), whether the capture has
  settled or not. When it has not, the capture settles after \<open>runAgent\<close> has
  returned, and a line that its handler logs then is not part of the run.
\<close>

definition perceive ::
  "builtins \<Rightarrow> env \<Rightarrow> settings \<Rightarrow> nat \<Rightarrow> jsval \<Rightarrow> nat \<Rightarrow> world
     \<Rightarrow> (perceived \<times> string option) option \<times> world" where
  "perceive B E S tab options step w =
     (let w1 = emit (CollectState tab options) w in
      if fastMode S then
        (let w2 = suspend B E (AtCollect step) w1
         in case collect_result E step of
              Inl msg \<Rightarrow> (None, log B (''State collection failed: '' @ msg) w2)
            | Inr state \<Rightarrow> (Some (state, None), w2))
      else
        let w2 = suspend B E (AtCollect step) (emit (CaptureScreenshot tab) w1)
        in if capture_first E step then
             (let (screenshot, w3) = capture_settled B E step w2;
                  w4 = suspend B E (AtJoin step) w3
              in case collect_result E step of
                   Inl msg \<Rightarrow> (None, log B (''State collection failed: '' @ msg) w4)
                 | Inr state \<Rightarrow> (Some (state, screenshot), w4))
           else
             (case collect_result E step of
                Inl msg \<Rightarrow> (None, log B (''State collection failed: '' @ msg) w2)
              | Inr state \<Rightarrow>
                  let (screenshot, w4) = capture_settled B E step (suspend B E (AtJoin step) w2)
                  in (Some (state, screenshot), w4)))"

definition extractResponseText :: "string option list \<Rightarrow> string" where
  "extractResponseText parts = concat (map (\<lambda>part. case part of Some t \<Rightarrow> t | None \<Rightarrow> []) parts)"

fun indexOf :: "char \<Rightarrow> string \<Rightarrow> nat option" where
  "indexOf c [] = None"
| "indexOf c (x # xs) = (if x = c then Some 0 else map_option Suc (indexOf c xs))"

definition lastIndexOf :: "char \<Rightarrow> string \<Rightarrow> nat option" where
  "lastIndexOf c s = map_option (\<lambda>i. length s - 1 - i) (indexOf c (rev s))"

text \<open>\<open>s.slice(start, stop)\<close> for indexes within the string.\<close>

definition slice :: "string \<Rightarrow> nat \<Rightarrow> nat \<Rightarrow> string" where
  "slice s start stop = take (stop - start) (drop start s)"

text \<open>
  \<open>parseAgentResponse\<close>: \<open>Inl\<close> carries the message of the error thrown. The only
  checks are that the text is not empty and that \<open>JSON.parse\<close> accepts it, or accepts
  the part from the first opening brace to the last closing brace.
\<close>

definition parseAgentResponse :: "builtins \<Rightarrow> string option list \<Rightarrow> string + jsval" where
  "parseAgentResponse B parts =
     (let raw = extractResponseText parts in
      if raw = [] then Inl ''Empty response from model''
      else case JSON_parse B raw of
             Inr v \<Rightarrow> Inr v
           | Inl err \<Rightarrow>
               (case (indexOf CHR ''{'' raw, lastIndexOf CHR ''}'' raw) of
                  (Some start, Some stop) \<Rightarrow> JSON_parse B (slice raw start (stop + 1))
                | _ \<Rightarrow> Inl err))"

section \<open>The background script: the agent loop\<close>

text \<open>How an invocation of the asynchronous \<open>runAgent\<close> ends: it returns, or an
  exception nobody catches rejects its promise and the rest of the function is not run.\<close>

datatype completion = Returned | Rejected string

definition outcome_entry :: "string + reply option \<Rightarrow> string" where
  "outcome_entry r =
     (case r of
        Inl msg \<Rightarrow> ''Action error: '' @ msg
      | Inr (Some (Ok res)) \<Rightarrow> ''Result: '' @ res
      | Inr (Some (Fail err)) \<Rightarrow>
          ''Action failed: '' @ (if err \<noteq> [] then err else ''unknown error'')
      | Inr None \<Rightarrow> ''Action failed: unknown error'')"

text \<open>
  The body of the loop over the actions, after its checks and with the type of the
  action as the template literal prints it: the action is logged and sent to the tab,
  the outcome is logged, and the delay follows whatever the outcome.
\<close>

definition perform_one ::
  "builtins \<Rightarrow> env \<Rightarrow> settings \<Rightarrow> nat \<Rightarrow> nat \<Rightarrow> nat \<Rightarrow> jsval \<Rightarrow> string \<Rightarrow> world
     \<Rightarrow> world" where
  "perform_one B E S tab step k action shown w =
     (let w1 = log B (''Action: '' @ shown) w;
          w2 = suspend B E (AtPerform step k) (emit (PerformAction tab action) w1);
          w3 = log B (outcome_entry (action_result E step k)) w2
      in suspend B E (AtSleep step k) (emit (Sleep (stepDelayMs S)) w3))"

text \<open>
  The loop over the actions of one decision, from action number \<open>k\<close> on. The stop flag
  is read before each action. Reading \<open>action.type\<close> of \<open>null\<close> throws, and so does
  the template literal of the log line on a type that cannot be converted to a string,
  both outside every \<open>try\<close>.
\<close>

fun run_actions ::
  "builtins \<Rightarrow> env \<Rightarrow> settings \<Rightarrow> nat \<Rightarrow> nat \<Rightarrow> nat \<Rightarrow> jsval list \<Rightarrow> world
     \<Rightarrow> completion \<times> world" where
  "run_actions B E S tab step k [] w = (Returned, w)"
| "run_actions B E S tab step k (action # rest) w =
     (if stopRequested (rs w) then (Returned, w)
      else if nullish action then (Rejected ''TypeError'', w)
      else case ToString B (field action ''type'') of
             Inl ex \<Rightarrow> (Rejected ''TypeError'', w)
           | Inr shown \<Rightarrow>
               run_actions B E S tab step (Suc k) rest
                 (perform_one B E S tab step k action shown w))"

definition actions_of :: "jsval \<Rightarrow> jsval list" where
  "actions_of agentResponse =
     (case field agentResponse ''actions'' of Arr acts \<Rightarrow> acts | _ \<Rightarrow> [])"

text \<open>
  \<open>if (agentResponse.plan) log(`Plan: ${agentResponse.plan}`)\<close>: the template literal
  throws on a plan that cannot be converted to a string.
\<close>

definition log_plan :: "builtins \<Rightarrow> jsval \<Rightarrow> world \<Rightarrow> exn + world" where
  "log_plan B agentResponse w =
     (if truthy (field agentResponse ''plan'')
      then (case ToString B (field agentResponse ''plan'') of
              Inl ex \<Rightarrow> Inl ex
            | Inr shown \<Rightarrow> Inr (log B (''Plan: '' @ shown) w))
      else Inr w)"

text \<open>
  What follows the parse in one step: the plan, the \<open>done\<close> test, the empty-actions
  test, the actions. The flag says whether the loop goes on to the next step.
\<close>

definition act_on ::
  "builtins \<Rightarrow> env \<Rightarrow> settings \<Rightarrow> nat \<Rightarrow> nat \<Rightarrow> jsval \<Rightarrow> world
     \<Rightarrow> (completion \<times> bool) \<times> world" where
  "act_on B E S tab step agentResponse w =
     (if nullish agentResponse then ((Rejected ''TypeError'', False), w)
      else
        case log_plan B agentResponse w of
          Inl ex \<Rightarrow> ((Rejected ''TypeError'', False), w)
        | Inr w1 \<Rightarrow>
            if truthy (field agentResponse ''done'')
            then (case ToString B (js_or (field agentResponse ''final'')
                                     (Str ''Task completed.'')) of
                    Inl ex \<Rightarrow> ((Rejected ''TypeError'', False), w1)
                  | Inr shown \<Rightarrow> ((Returned, False), log B (''Done: '' @ shown) w1))
            else if actions_of agentResponse = []
            then ((Returned, False), log B ''No actions returned. Stopping.'' w1)
            else case run_actions B E S tab step 0 (actions_of agentResponse) w1 of
                   (Returned, w2) \<Rightarrow> ((Returned, True), w2)
                 | (Rejected m, w2) \<Rightarrow> ((Rejected m, False), w2))"

text \<open>
  One iteration of the \<open>for\<close> loop after its stop check: perceive, ask the model,
  parse, act.
\<close>

definition run_step ::
  "builtins \<Rightarrow> env \<Rightarrow> settings \<Rightarrow> nat \<Rightarrow> jsval \<Rightarrow> nat \<Rightarrow> world
     \<Rightarrow> (completion \<times> bool) \<times> world" where
  "run_step B E S tab options step w =
     (let w1 = log B (''Collecting state (step '' @ show_nat step @ ''/''
                       @ show_nat (maxSteps S) @ '')...'') w
      in case perceive B E S tab options step w1 of
           (None, w2) \<Rightarrow> ((Returned, False), w2)
         | (Some (state, screenshot), w2) \<Rightarrow>
             let w3 = suspend B E (AtModel step) (emit (CallModel step (screenshot \<noteq> None)) w2)
             in case model_result E step of
                  Inl msg \<Rightarrow> ((Returned, False), log B msg w3)
                | Inr parts \<Rightarrow>
                    (case parseAgentResponse B parts of
                       Inl msg \<Rightarrow>
                         ((Returned, False), log B (''Failed to parse model JSON: '' @ msg) w3)
                     | Inr agentResponse \<Rightarrow> act_on B E S tab step agentResponse w3))"

text \<open>The \<open>for\<close> loop, over the step numbers still to run.\<close>

fun run_steps ::
  "builtins \<Rightarrow> env \<Rightarrow> settings \<Rightarrow> nat \<Rightarrow> jsval \<Rightarrow> nat list \<Rightarrow> world \<Rightarrow> completion \<times> world" where
  "run_steps B E S tab options [] w = (Returned, w)"
| "run_steps B E S tab options (step # later) w =
     (if stopRequested (rs w) then (Returned, w)
      else case run_step B E S tab options step w of
             ((Returned, True), w1) \<Rightarrow> run_steps B E S tab options later w1
           | ((c, _), w1) \<Rightarrow> (c, w1))"

text \<open>The statements after the loop.\<close>

definition finish :: "builtins \<Rightarrow> world \<Rightarrow> world" where
  "finish B w =
     log B ''Agent stopped.''
       (sendStatus (w\<lparr>rs := (rs w)\<lparr>running := False, stopRequested := False,
                                     stoppedAt := Some (now w)\<rparr>\<rparr>))"

text \<open>
  \<open>runAgent(tabId, instruction)\<close>. The instruction reaches the prompt only, which has
  no influence on the control flow and is not modelled.
\<close>

definition runAgent ::
  "builtins \<Rightarrow> env \<Rightarrow> nat \<Rightarrow> string \<Rightarrow> world \<Rightarrow> completion \<times> world" where
  "runAgent B E tab instruction w =
     (if running (rs w) then (Returned, log B ''Agent already running.'' w)
      else
        let w1 = suspend B E AtSettings w in
        case settings_result E of
          Inl msg \<Rightarrow> (Rejected msg, w1)
        | Inr S \<Rightarrow>
            if apiKey S = []
            then (Returned,
                  log B ''Missing API key. Add it in the popup or generate config.js.'' w1)
            else
              let w2 = sendStatus
                         (w1\<lparr>rs := \<lparr>running = True, stopRequested = False, tabId = Some tab,
                                     logs = logs (rs w1), startedAt = Some (now w1),
                                     stoppedAt = None\<rparr>\<rparr>);
                  w3 = log B ''Injecting content script...'' w2;
                  (injected, w4) = ensureContentScript B E tab w3
              in if \<not> injected then (Returned, w4\<lparr>rs := (rs w4)\<lparr>running := False\<rparr>\<rparr>)
                 else case run_steps B E S tab (collectOptions S) [1..<Suc (maxSteps S)] w4 of
                        (Returned, w5) \<Rightarrow> (Returned, finish B w5)
                      | (Rejected m, w5) \<Rightarrow> (Rejected m, w5))"

section \<open>Vocabulary for the properties\<close>

text \<open>
  The screenshot a step ends up with and the decision it parses, read off the
  environment; the calls of one perception and of one action.
\<close>

definition screenshot_at :: "env \<Rightarrow> settings \<Rightarrow> nat \<Rightarrow> string option" where
  "screenshot_at E S step =
     (if fastMode S then None
      else case capture_result E step of
             Inl msg \<Rightarrow> None
           | Inr dataUrl \<Rightarrow> screenshot_of dataUrl)"

definition decision_at :: "builtins \<Rightarrow> env \<Rightarrow> nat \<Rightarrow> jsval option" where
  "decision_at B E step =
     (case model_result E step of
        Inl msg \<Rightarrow> None
      | Inr parts \<Rightarrow>
          (case parseAgentResponse B parts of Inl msg \<Rightarrow> None | Inr d \<Rightarrow> Some d))"

definition perception_calls :: "settings \<Rightarrow> nat \<Rightarrow> event list" where
  "perception_calls S tab =
     CollectState tab (collectOptions S) # (if fastMode S then [] else [CaptureScreenshot tab])"

definition action_calls :: "settings \<Rightarrow> nat \<Rightarrow> jsval \<Rightarrow> event list" where
  "action_calls S tab action = [PerformAction tab action, Sleep (stepDelayMs S)]"

text \<open>
  A sequence of calls respects the mode: every state request goes to the tab with the
  options of the mode; in fast mode there is no screenshot call at all, otherwise each
  state request is followed at once by a screenshot call, and there is no other one.
  The flag of \<open>mode_respected\<close> says that a screenshot call is due next.
\<close>

fun mode_respected :: "settings \<Rightarrow> nat \<Rightarrow> bool \<Rightarrow> event list \<Rightarrow> bool" where
  "mode_respected S tab due [] = (\<not> due)"
| "mode_respected S tab due (e # rest) =
     (case e of
        CollectState t opts \<Rightarrow>
          \<not> due \<and> t = tab \<and> opts = collectOptions S
          \<and> mode_respected S tab (\<not> fastMode S) rest
      | CaptureScreenshot t \<Rightarrow> due \<and> t = tab \<and> mode_respected S tab False rest
      | _ \<Rightarrow> \<not> due \<and> mode_respected S tab False rest)"

definition perception_calls_ok :: "settings \<Rightarrow> nat \<Rightarrow> event list \<Rightarrow> bool" where
  "perception_calls_ok S tab evs = mode_respected S tab False evs"

text \<open>
  The invocation of \<open>runAgent\<close> under study is the only one: no other invocation has
  passed the running guard before it, and no start command arrives while it reads its
  settings, which is the only time it is suspended with \<open>running\<close> not set.
\<close>

fun is_start :: "command \<Rightarrow> bool" where
  "is_start (POPUP_START tab instruction) = True"
| "is_start c = False"

fun is_spawn :: "event \<Rightarrow> bool" where
  "is_spawn (Spawned tab instruction) = True"
| "is_spawn e = False"

definition only_invocation :: "env \<Rightarrow> world \<Rightarrow> bool" where
  "only_invocation E w =
     (list_all (\<lambda>c. \<not> is_start c) (incoming E AtSettings)
      \<and> list_all (\<lambda>e. \<not> is_spawn e) (trace w))"

text \<open>
  The plan of a decision can be logged: it is falsy, or it can be converted to a
  string. An action can be dispatched: it is not \<open>null\<close> and its type can be converted
  to a string.
\<close>

definition plan_prints :: "jsval \<Rightarrow> bool" where
  "plan_prints d = (\<not> truthy (field d ''plan'') \<or> converts (field d ''plan''))"

definition dispatchable :: "jsval \<Rightarrow> bool" where
  "dispatchable a = (\<not> nullish a \<and> converts (field a ''type''))"

text \<open>The line that reports a decision with \<open>done\<close> can be written.\<close>

definition done_prints :: "jsval \<Rightarrow> bool" where
  "done_prints d = converts (js_or (field d ''final'') (Str ''Task completed.''))"

text \<open>
  A step with a single action: its state request succeeds and its decision parses to a
  value with a plan that can be logged, a falsy \<open>done\<close> and exactly one action, which
  can be dispatched.
\<close>

definition single_action_step :: "builtins \<Rightarrow> env \<Rightarrow> nat \<Rightarrow> bool" where
  "single_action_step B E step =
     (case collect_result E step of
        Inl msg \<Rightarrow> False
      | Inr state \<Rightarrow>
          (case decision_at B E step of
             None \<Rightarrow> False
           | Some d \<Rightarrow>
               \<not> nullish d \<and> plan_prints d \<and> \<not> truthy (field d ''done'')
               \<and> (case actions_of d of [a] \<Rightarrow> dispatchable a | _ \<Rightarrow> False)))"

text \<open>The calls of a step with a single action.\<close>

definition single_action_calls :: "builtins \<Rightarrow> env \<Rightarrow> settings \<Rightarrow> nat \<Rightarrow> nat \<Rightarrow> event list" where
  "single_action_calls B E S tab step =
     perception_calls S tab
     @ [CallModel step (screenshot_at E S step \<noteq> None)]
     @ (case decision_at B E step of
          None \<Rightarrow> []
        | Some d \<Rightarrow> concat (map (action_calls S tab) (actions_of d)))"

text \<open>The calls of a world grow by a sequence that respects the mode.\<close>

definition grows :: "settings \<Rightarrow> nat \<Rightarrow> world \<Rightarrow> world \<Rightarrow> bool" where
  "grows S tab w w' =
     (\<exists>cs. calls (trace w') = calls (trace w) @ cs \<and> perception_calls_ok S tab cs)"

text \<open>
  The world after the plan of a decision, if it has one, has been logged, for a plan
  that can be logged.
\<close>

definition after_plan :: "builtins \<Rightarrow> jsval \<Rightarrow> world \<Rightarrow> world" where
  "after_plan B d w =
     (if truthy (field d ''plan'') then log B (''Plan: '' @ string_of B (field d ''plan'')) w
      else w)"

text \<open>The world of a step after its perception, and after its model request.\<close>

definition before_model :: "builtins \<Rightarrow> env \<Rightarrow> settings \<Rightarrow> nat \<Rightarrow> jsval \<Rightarrow> nat \<Rightarrow> world \<Rightarrow> world" where
  "before_model B E S tab opts step w =
     snd (perceive B E S tab opts step
            (log B (''Collecting state (step '' @ show_nat step @ ''/''
                       @ show_nat (maxSteps S) @ '')...'') w))"

definition after_model :: "builtins \<Rightarrow> env \<Rightarrow> settings \<Rightarrow> nat \<Rightarrow> jsval \<Rightarrow> nat \<Rightarrow> world \<Rightarrow> world" where
  "after_model B E S tab opts step w =
     suspend B E (AtModel step)
       (emit (CallModel step (screenshot_at E S step \<noteq> None)) (before_model B E S tab opts step w))"

text \<open>The world in which the loop starts, when the run starts and the injection ends.\<close>

definition started :: "builtins \<Rightarrow> env \<Rightarrow> nat \<Rightarrow> world \<Rightarrow> world" where
  "started B E tab w =
     (let w1 = suspend B E AtSettings w
      in snd (ensureContentScript B E tab
           (log B ''Injecting content script...''
              (sendStatus
                 (w1\<lparr>rs := \<lparr>running = True, stopRequested = False, tabId = Some tab,
                             logs = logs (rs w1), startedAt = Some (now w1),
                             stoppedAt = None\<rparr>\<rparr>)))))"

text \<open>The numbers of state requests, model requests and dispatched actions among events.\<close>

fun is_collect :: "event \<Rightarrow> bool" where
  "is_collect (CollectState tab opts) = True"
| "is_collect e = False"

fun is_model_call :: "event \<Rightarrow> bool" where
  "is_model_call (CallModel step shot) = True"
| "is_model_call e = False"

fun is_perform :: "event \<Rightarrow> bool" where
  "is_perform (PerformAction tab action) = True"
| "is_perform e = False"

definition iterations :: "event list \<Rightarrow> nat \<times> nat \<times> nat" where
  "iterations evs =
     (length (filter is_collect evs), length (filter is_model_call evs),
      length (filter is_perform evs))"

text \<open>
  The world at the head of the loop after the given steps have run and each has gone on
  to the next one; \<open>None\<close> when the loop has ended before.
\<close>

fun after_steps ::
  "builtins \<Rightarrow> env \<Rightarrow> settings \<Rightarrow> nat \<Rightarrow> jsval \<Rightarrow> nat list \<Rightarrow> world \<Rightarrow> world option" where
  "after_steps B E S tab opts [] w = Some w"
| "after_steps B E S tab opts (step # later) w =
     (if stopRequested (rs w) then None
      else case run_step B E S tab opts step w of
             ((Returned, True), w1) \<Rightarrow> after_steps B E S tab opts later w1
           | _ \<Rightarrow> None)"

text \<open>The trace of the second world continues the trace of the first.\<close>

definition trace_extends :: "world \<Rightarrow> world \<Rightarrow> bool" where
  "trace_extends w w' = (\<exists>new. trace w' = trace w @ new)"

text \<open>Between the two worlds, a line with the given entry has been logged.\<close>

definition logged :: "builtins \<Rightarrow> string \<Rightarrow> world \<Rightarrow> world \<Rightarrow> bool" where
  "logged B entry w w' =
     (\<exists>new t. trace w' = trace w @ new \<and> Sent (AGENT_LOG (log_line B t entry)) \<in> set new)"

text \<open>
  An element as the HTML parser creates it: it is in the HTML namespace, its local name
  is its tag name in lower case, and the CSS parser reads that name as an identifier,
  as it is.
\<close>

definition plain_html :: "builtins \<Rightarrow> props \<Rightarrow> bool" where
  "plain_html B e =
     (isHTML e \<and> localName e = toLowerCase (tagName e)
      \<and> css_ident B (toLowerCase (tagName e)) = Some (toLowerCase (tagName e)))"

text \<open>
  Among the children \<open>ks\<close>, the siblings that the source counts for child \<open>i\<close>, those
  of the same tag name, are those that \<open>:nth-of-type\<close> counts, those of the same
  type. This is so among elements that the HTML parser has created; it fails when an
  element of another namespace has the upper-case name of an HTML sibling.
\<close>

definition types_agree :: "node list \<Rightarrow> nat \<Rightarrow> bool" where
  "types_agree ks i =
     (\<forall>s \<in> set ks. same_tag (ks ! i) s = same_type (node_props (ks ! i)) (node_props s))"

text \<open>The element at a path is plain HTML, and so is the count among its siblings.\<close>

definition plain_step :: "builtins \<Rightarrow> page \<Rightarrow> nat list \<Rightarrow> bool" where
  "plain_step B pg q =
     (if q = [] then plain_html B (node_props (root pg))
      else case node_at (root pg) (butlast q) of
             None \<Rightarrow> False
           | Some parent \<Rightarrow>
               let ks = node_children parent; i = last q
               in i < length ks \<and> plain_html B (node_props (ks ! i)) \<and> types_agree ks i)"

text \<open>
  The elements that contribute a step to the structural path of the element at \<open>p\<close>,
  outermost first: the element and its ancestors below the body, or up to the document
  element when the element is not below the body.
\<close>

definition path_elements :: "page \<Rightarrow> nat list \<Rightarrow> nat list list" where
  "path_elements pg p =
     map (\<lambda>n. take n p)
       (if below_body pg p then [Suc (length (the (body_path pg)))..<Suc (length p)]
        else [0..<Suc (length p)])"

text \<open>
  The derived selector of the element \<open>e\<close> at \<open>p\<close> can be read back: the CSS parser
  reads the escaped id or attribute value back as it was; the attribute the selector
  names is the one the value came from; where the selector has a tag name in front, the
  element is plain HTML; and a structural path is not empty (the element is not the
  body) and all its steps are plain.
\<close>

definition reads_back :: "builtins \<Rightarrow> page \<Rightarrow> nat list \<Rightarrow> props \<Rightarrow> selector \<Rightarrow> bool" where
  "reads_back B pg p e sel =
     (case sel of
        IdSel i \<Rightarrow> css_ident B (CSS_escape B i) = Some i
      | AttrSel t a v \<Rightarrow>
          css_string B (escapeAttr v) = Some v \<and> getAttribute e a = Some v
          \<and> (t = None \<or> plain_html B e)
      | PathSel steps \<Rightarrow> steps \<noteq> [] \<and> list_all (plain_step B pg) (path_elements pg p))"

text \<open>
  The value and the text of an action have the types the response schema declares for
  them: each is a string or absent (\<open>null\<close>, or not there).
\<close>

definition string_or_absent :: "jsval \<Rightarrow> bool" where
  "string_or_absent v = (case v of Undefined \<Rightarrow> True | Null \<Rightarrow> True | Str s \<Rightarrow> True | _ \<Rightarrow> False)"

section \<open>Concrete instances\<close>

text \<open>
  An instance of the platform functions for the examples below. It is accurate on the
  values the examples use: strings of decimal digits and strings that are no numbers,
  natural numbers, identifiers made of a letter followed by letters, digits, hyphens
  and underscores (every other text it does not read), quoted text whose only escapes are
  a backslash in front of a character that is no hexadecimal digit, and the three model
  replies \<open>click_reply\<close>, \<open>hover_reply\<close> and \<open>three_reply\<close>. The examples do not
  multiply by \<open>0.7\<close>; the instance gives the exact product, which a double rounds.
\<close>

fun digits_value :: "nat \<Rightarrow> string \<Rightarrow> nat option" where
  "digits_value acc [] = Some acc"
| "digits_value acc (c # cs) =
     (let n = (of_char c :: nat)
      in if 48 \<le> n \<and> n \<le> 57 then digits_value (10 * acc + (n - 48)) cs else None)"

fun unquote_simple :: "string \<Rightarrow> string option" where
  "unquote_simple [] = Some []"
| "unquote_simple [c] = (if c = CHR 0x22 \<or> c = CHR 0x5C then None else Some [c])"
| "unquote_simple (c # d # cs) =
     (if c = CHR 0x5C then map_option ((#) d) (unquote_simple cs)
      else if c = CHR 0x22 then None
      else map_option ((#) c) (unquote_simple (d # cs)))"

definition is_letter :: "char \<Rightarrow> bool" where
  "is_letter c =
     (let n = (of_char c :: nat) in (65 \<le> n \<and> n \<le> 90) \<or> (97 \<le> n \<and> n \<le> 122))"

definition is_name_char :: "char \<Rightarrow> bool" where
  "is_name_char c =
     (let n = (of_char c :: nat)
      in is_letter c \<or> (48 \<le> n \<and> n \<le> 57) \<or> n = 45 \<or> n = 95)"

definition plain_ident :: "string \<Rightarrow> string option" where
  "plain_ident s =
     (case s of
        [] \<Rightarrow> None
      | c # cs \<Rightarrow> if is_letter c \<and> list_all is_name_char cs then Some s else None)"

definition click_reply :: string where
  \<open>click_reply = ''{"actions":[{"type":"click","selector":"#login"}],"done":false}''\<close>

definition click_decision :: jsval where
  "click_decision =
     Obj [(''actions'', Arr [Obj [(''type'', Str ''click''), (''selector'', Str ''#login'')]]),
          (''done'', Bool False)]"

definition hover_reply :: string where
  \<open>hover_reply = ''{"actions":[{"type":"hover","selector":"#login"}],"done":false}''\<close>

definition hover_action :: jsval where
  "hover_action = Obj [(''type'', Str ''hover''), (''selector'', Str ''#login'')]"

definition hover_decision :: jsval where
  "hover_decision = Obj [(''actions'', Arr [hover_action]), (''done'', Bool False)]"

definition three_reply :: string where
  \<open>three_reply = ''{"actions":[{"type":"click","selector":"#login"},{"type":"wait","ms":100},{"type":"scroll","direction":"down"}],"done":false}''\<close>

definition three_decision :: jsval where
  "three_decision =
     Obj [(''actions'',
           Arr [Obj [(''type'', Str ''click''), (''selector'', Str ''#login'')],
                Obj [(''type'', Str ''wait''), (''ms'', Num (Fin 100))],
                Obj [(''type'', Str ''scroll''), (''direction'', Str ''down'')]]),
          (''done'', Bool False)]"

definition example_builtins :: builtins where
  "example_builtins =
     \<lparr> StringToNumber = (\<lambda>s. if s = [] then Fin 0
                               else case digits_value 0 s of
                                      Some n \<Rightarrow> Fin (of_nat n)
                                    | None \<Rightarrow> NaN),
       NumberToString = (\<lambda>n. case n of
                                 NaN \<Rightarrow> ''NaN''
                               | PosInf \<Rightarrow> ''Infinity''
                               | NegInf \<Rightarrow> ''-Infinity''
                               | Fin r \<Rightarrow> (if r < 0 then ''-'' else []) @ show_nat (nat \<lfloor>\<bar>r\<bar>\<rfloor>)),
       times_seven_tenths = (\<lambda>h. h * (7 / 10)),
       CSS_escape = (\<lambda>s. s),
       css_ident = plain_ident,
       css_string = unquote_simple,
       JSON_parse = (\<lambda>s. if s = click_reply then Inr click_decision
                           else if s = hover_reply then Inr hover_decision
                           else if s = three_reply then Inr three_decision
                           else Inl ''Unexpected token''),
       toLocaleTimeString = show_nat \<rparr>"

definition visible_box :: rect where
  "visible_box = \<lparr> rect_x = 10, rect_y = 10, rect_width = 80, rect_height = 30 \<rparr>"

text \<open>An HTML element as the parser creates it, visible, with the given tag name.\<close>

definition elem :: "string \<Rightarrow> (string \<times> string) list \<Rightarrow> string \<Rightarrow> node list \<Rightarrow> node" where
  "elem tg as txt ks =
     Node \<lparr> tagName = tg, localName = toLowerCase tg, namespaceURI = html_namespace,
            attrs = as, innerText = txt, textContent = txt,
            visibility = ''visible'', display = ''block'', opacity = ''1'',
            bounds = visible_box, isContentEditable = False \<rparr> ks"

text \<open>
  A document whose body has two search fields of the same name, a login button, a field
  known by its \<open>data-test\<close> attribute, and a link inside a division followed by a link
  beside it.
\<close>

definition example_page :: page where
  "example_page =
     \<lparr> url = ''https://example.test/'', title = ''Example'',
       innerWidth = 1280, innerHeight = 720, scrollX = 0, scrollY = 0,
       quirksMode = False,
       root = elem ''HTML'' [] []
                [elem ''HEAD'' [] [] [],
                 elem ''BODY'' [] []
                   [elem ''INPUT'' [(''name'', ''q'')] [] [],
                    elem ''INPUT'' [(''name'', ''q'')] [] [],
                    elem ''BUTTON'' [(''id'', ''login'')] ''Log in'' [],
                    elem ''TEXTAREA'' [(''data-test'', ''notes'')] [] [],
                    elem ''DIV'' [] ''Help'' [elem ''A'' [] ''Help'' []],
                    elem ''A'' [] ''About'' []]],
       body_path = Some [1] \<rparr>"

text \<open>
  A document whose body holds an SVG image with a button inside a \<open>foreignObject\<close>
  element: the tag name of an SVG element keeps its upper-case letter.
\<close>

definition svg_namespace :: string where
  "svg_namespace = ''http://www.w3.org/2000/svg''"

definition svg_elem :: "string \<Rightarrow> node list \<Rightarrow> node" where
  "svg_elem name ks =
     Node \<lparr> tagName = name, localName = name, namespaceURI = svg_namespace,
            attrs = [], innerText = [], textContent = [],
            visibility = ''visible'', display = ''block'', opacity = ''1'',
            bounds = visible_box, isContentEditable = False \<rparr> ks"

definition svg_page :: page where
  "svg_page =
     \<lparr> url = ''https://example.test/chart'', title = ''Chart'',
       innerWidth = 1280, innerHeight = 720, scrollX = 0, scrollY = 0,
       quirksMode = False,
       root = elem ''HTML'' [] []
                [elem ''HEAD'' [] [] [],
                 elem ''BODY'' [] []
                   [svg_elem ''svg'' [svg_elem ''foreignObject'' [elem ''BUTTON'' [] ''Zoom'' []]]]],
       body_path = Some [1] \<rparr>"

definition zoom_button :: props where
  "zoom_button = node_props (elem ''BUTTON'' [] ''Zoom'' [])"

text \<open>The selector engine on the example page, for the selector the examples use.\<close>

definition example_query :: "string \<Rightarrow> exn + nat list option" where
  "example_query sel = (if sel = ''#login'' then Inr (Some [1, 2]) else Inr None)"

text \<open>Every operation on the example page completes.\<close>

definition example_throws :: "dom_effect \<Rightarrow> exn option" where
  "example_throws ef = None"

definition type_by_text :: jsval where
  "type_by_text = Obj [(''type'', Str ''type''), (''text'', Str ''log'')]"

definition type_empty_value :: jsval where
  "type_empty_value =
     Obj [(''type'', Str ''type''), (''selector'', Str ''#login''), (''value'', Str [])]"

definition example_state :: perceived where
  "example_state =
     \<lparr> ps_url = ''https://example.test/'', ps_title = ''Example'',
       ps_width = 1280, ps_height = 720, ps_scrollX = 0, ps_scrollY = 0,
       elements = [\<lparr> d_tag = ''button'', d_type = None, d_label = ''Log in'',
                      d_selector = ''#login'', d_x = 10, d_y = 10, d_width = 80,
                      d_height = 30 \<rparr>],
       textSnippet = [] \<rparr>"

definition example_settings :: settings where
  "example_settings =
     \<lparr> apiKey = ''key'', model = ''gemini-3-flash-preview'', maxSteps = 2,
       stepDelayMs = 0, fastMode = True \<rparr>"

text \<open>
  An environment in which everything succeeds but the screenshot, which settles after
  the state request, the model always answers with one click, and the popup sends
  nothing.
\<close>

definition example_env :: env where
  "example_env =
     \<lparr> settings_result = Inr example_settings,
       inject_result = None,
       collect_result = (\<lambda>step. Inr example_state),
       capture_result = (\<lambda>step. Inl ''capture failed''),
       capture_first = (\<lambda>step. False),
       model_result = (\<lambda>step. Inr [Some click_reply]),
       action_result = (\<lambda>step k. Inr (Some (Ok ''clicked''))),
       incoming = (\<lambda>pt. []),
       elapsed = (\<lambda>pt. 1) \<rparr>"

text \<open>
  An environment in which the model always answers with three actions and the popup sends
  a stop command while the second action of the second step is with the tab.
\<close>

definition stop_env :: env where
  "stop_env =
     example_env\<lparr> model_result := (\<lambda>step. Inr [Some three_reply]),
                   incoming := (\<lambda>pt. if pt = AtPerform 2 1 then [POPUP_STOP] else []) \<rparr>"

text \<open>An environment in which the model always answers with one action of an unknown kind.\<close>

definition hover_env :: env where
  "hover_env =
     example_env\<lparr> model_result := (\<lambda>step. Inr [Some hover_reply]),
                   action_result := (\<lambda>step k. Inr (Some (Fail ''Unsupported action: hover''))) \<rparr>"

text \<open>An environment in which the content script cannot be injected.\<close>

definition blocked_env :: env where
  "blocked_env = example_env\<lparr> inject_result := Some ''Cannot access a chrome:// URL'' \<rparr>"

definition idle_state :: run_state where
  "idle_state =
     \<lparr> running = False, stopRequested = False, tabId = None, logs = [],
       startedAt = None, stoppedAt = None \<rparr>"

definition idle_world :: world where
  "idle_world = \<lparr> rs = idle_state, trace = [], now = 0 \<rparr>"

definition running_world :: world where
  "running_world =
     \<lparr> rs = idle_state\<lparr>running := True, tabId := Some 1, startedAt := Some 3\<rparr>,
       trace = [], now = 5 \<rparr>"

text \<open>The example settings and environment with fast mode off; no screenshot can be taken.\<close>

definition normal_settings :: settings where
  "normal_settings = example_settings\<lparr>fastMode := False\<rparr>"

definition normal_env :: env where
  "normal_env = example_env\<lparr>settings_result := Inr normal_settings\<rparr>"

text \<open>
  The elements of the example page used below, and a button whose \<open>aria-label\<close> has
  161 characters.
\<close>

definition login_button :: props where
  "login_button = node_props (elem ''BUTTON'' [(''id'', ''login'')] ''Log in'' [])"

definition long_label_button :: props where
  "long_label_button =
     node_props (elem ''BUTTON'' [(''aria-label'', replicate 161 CHR ''a'')] [] [])"

definition second_search_field :: props where
  "second_search_field = node_props (elem ''INPUT'' [(''name'', ''q'')] [] [])"

definition help_link :: props where
  "help_link = node_props (elem ''A'' [] ''Help'' [])"

definition about_link :: props where
  "about_link = node_props (elem ''A'' [] ''About'' [])"

definition notes_field :: props where
  "notes_field = node_props (elem ''TEXTAREA'' [(''data-test'', ''notes'')] [] [])"

section \<open>Properties of the perception limits\<close>

lemma collect_loop_length:
  "int (length acc) < mx \<Longrightarrow> int (length (collect_loop B pg mx ps acc)) \<le> mx"
proof (induction ps arbitrary: acc)
  case Nil
  then show ?case by simp
next
  case (Cons p ps)
  show ?case
  proof (cases "element_at pg p")
    case None
    with Cons show ?thesis by simp
  next
    case (Some e)
    show ?thesis
    proof (cases "isVisible e")
      case False
      with Some Cons show ?thesis by simp
    next
      case True
      show ?thesis
      proof (cases "int (length (acc @ [describe B pg p e])) \<ge> mx")
        case full: True
        from Cons.prems have "int (length (acc @ [describe B pg p e])) \<le> mx" by simp
        with full Some True show ?thesis by (simp add: Let_def)
      next
        case room: False
        then have "int (length (acc @ [describe B pg p e])) < mx" by simp
        from Cons.IH[OF this] Some True room show ?thesis by (simp add: Let_def)
      qed
    qed
  qed
qed

lemma ToString_converts: "converts v \<Longrightarrow> ToString B v = Inr (string_of B v)"
  by (simp add: ToString_def)

lemma ToString_throws: "\<not> converts v \<Longrightarrow> ToString B v = Inl TypeError"
  by (simp add: ToString_def)

lemma normalizeLimit_range:
  "mn \<le> fb \<Longrightarrow> fb \<le> mx \<Longrightarrow> normalizeLimit B v fb mn mx = Inr n \<Longrightarrow> mn \<le> n \<and> n \<le> mx"
  by (auto simp: normalizeLimit_def split: sum.splits jsnum.splits)

lemma normalizeLimit_returns:
  "converts v \<Longrightarrow> \<exists>n. normalizeLimit B v fb mn mx = Inr n"
  by (auto simp: normalizeLimit_def ToNumber_def split: jsnum.splits)

lemma normalizeLimit_throws:
  "\<not> converts v \<Longrightarrow> normalizeLimit B v fb mn mx = Inl TypeError"
  by (simp add: normalizeLimit_def ToNumber_def)

lemma field_of_options:
  "field (if options = Undefined then Obj [] else options) k = field options k"
  by simp

lemma collectPageState_bounded:
  assumes "collectPageState B pg options = Inr st"
  shows "length (elements st) \<le> 500 \<and> length (textSnippet st) \<le> 20000"
proof -
  define opts where "opts = (if options = Undefined then Obj [] else options)"
  from assms obtain me mt where
    me: "normalizeLimit B (field opts ''maxElements'') DEFAULT_MAX_ELEMENTS 10 500 = Inr me"
    and mt: "normalizeLimit B (field opts ''maxText'') DEFAULT_MAX_TEXT 0 20000 = Inr mt"
    and st: "st = \<lparr> ps_url = url pg, ps_title = title pg,
                     ps_width = innerWidth pg, ps_height = innerHeight pg,
                     ps_scrollX = scrollX pg, ps_scrollY = scrollY pg,
                     elements = sort_key (\<lambda>d. (d_y d, d_x d))
                                  (collect_loop B pg me (candidates pg) []),
                     textSnippet = (if mt > 0
                                    then take (nat mt) (trim (collapse_ws (body_text pg)))
                                    else []) \<rparr>"
    unfolding collectPageState_def Let_def opts_def[symmetric]
    by (auto split: if_splits sum.splits)
  have rme: "10 \<le> me \<and> me \<le> 500"
    using normalizeLimit_range[OF _ _ me] by (simp add: DEFAULT_MAX_ELEMENTS_def)
  have rmt: "0 \<le> mt \<and> mt \<le> 20000"
    using normalizeLimit_range[OF _ _ mt] by (simp add: DEFAULT_MAX_TEXT_def)
  have "int (length (collect_loop B pg me (candidates pg) [])) \<le> me"
    using rme by (intro collect_loop_length) simp
  with rme have el: "length (collect_loop B pg me (candidates pg) []) \<le> 500" by linarith
  have "nat mt \<le> 20000" using rmt by linarith
  then have tx: "length (take (nat mt) s) \<le> 20000" for s :: string
    by simp
  show ?thesis
    unfolding st using el tx by simp
qed

lemma collectPageState_returns:
  assumes "options \<noteq> Null" and "converts (field options ''maxElements'')"
    and "converts (field options ''maxText'')"
  shows "\<exists>st. collectPageState B pg options = Inr st"
proof -
  obtain me where me: "normalizeLimit B (field options ''maxElements'') DEFAULT_MAX_ELEMENTS 10 500
                         = Inr me"
    using normalizeLimit_returns[OF assms(2)] by blast
  obtain mt where mt: "normalizeLimit B (field options ''maxText'') DEFAULT_MAX_TEXT 0 20000
                         = Inr mt"
    using normalizeLimit_returns[OF assms(3)] by blast
  show ?thesis
    unfolding collectPageState_def Let_def field_of_options
    using assms(1) me mt by simp
qed

lemma collectPageState_throws:
  assumes "options = Null \<or> \<not> converts (field options ''maxElements'')
           \<or> \<not> converts (field options ''maxText'')"
  shows "collectPageState B pg options = Inl TypeError"
proof (cases "options = Null")
  case True
  then show ?thesis by (simp add: collectPageState_def)
next
  case False
  show ?thesis
  proof (cases "converts (field options ''maxElements'')")
    case no: False
    from normalizeLimit_throws[OF this] False show ?thesis
      unfolding collectPageState_def Let_def field_of_options by simp
  next
    case yes: True
    with assms False have "\<not> converts (field options ''maxText'')" by simp
    then have t: "normalizeLimit B (field options ''maxText'') DEFAULT_MAX_TEXT 0 20000
                    = Inl TypeError"
      by (rule normalizeLimit_throws)
    obtain me where me: "normalizeLimit B (field options ''maxElements'') DEFAULT_MAX_ELEMENTS
                           10 500 = Inr me"
      using normalizeLimit_returns[OF yes] by blast
    show ?thesis
      unfolding collectPageState_def Let_def field_of_options
      using False t me by simp
  qed
qed




section \<open>Properties of labels\<close>

text \<open>
  Claim C4, as the code has it. A label taken from \<open>aria-label\<close>, from the text of the
  \<open>aria-labelledby\<close> target, from \<open>placeholder\<close> or from \<open>alt\<close>, in this order of
  priority, is that string trimmed and not truncated; only when none of the four is
  present is the label the element's own text, trimmed and cut to 160 characters.
\<close>

theorem label_length:
  "(present (getAttribute e ''aria-label'') \<longrightarrow>
      getLabel pg e = trim (the (getAttribute e ''aria-label'')))
   \<and> (\<not> present (getAttribute e ''aria-label'') \<and> present (labelledBy_text pg e) \<longrightarrow>
      getLabel pg e = trim (the (labelledBy_text pg e)))
   \<and> (\<not> present (getAttribute e ''aria-label'') \<and> \<not> present (labelledBy_text pg e)
        \<and> present (getAttribute e ''placeholder'') \<longrightarrow>
      getLabel pg e = trim (the (getAttribute e ''placeholder'')))
   \<and> (\<not> present (getAttribute e ''aria-label'') \<and> \<not> present (labelledBy_text pg e)
        \<and> \<not> present (getAttribute e ''placeholder'') \<and> present (getAttribute e ''alt'') \<longrightarrow>
      getLabel pg e = trim (the (getAttribute e ''alt'')))
   \<and> (\<not> present (getAttribute e ''aria-label'') \<and> \<not> present (labelledBy_text pg e)
        \<and> \<not> present (getAttribute e ''placeholder'') \<and> \<not> present (getAttribute e ''alt'') \<longrightarrow>
      length (getLabel pg e) \<le> 160)"
  by (simp add: getLabel_def Let_def)

text \<open>
  The theorem at a button whose \<open>aria-label\<close> has 161 characters and at the login
  button of the example page, which has its own text only.
\<close>

theorem label_length_witness:
  "present (getAttribute long_label_button ''aria-label'')
   \<and> getLabel example_page long_label_button = replicate 161 CHR ''a''
   \<and> \<not> present (getAttribute login_button ''aria-label'')
   \<and> \<not> present (labelledBy_text example_page login_button)
   \<and> \<not> present (getAttribute login_button ''placeholder'')
   \<and> \<not> present (getAttribute login_button ''alt'')
   \<and> length (getLabel example_page login_button) \<le> 160"
proof -
  have a: "present (getAttribute long_label_button ''aria-label'')"
    by code_simp
  have t: "trim (the (getAttribute long_label_button ''aria-label'')) = replicate 161 CHR ''a''"
    by code_simp
  have b: "\<not> present (getAttribute login_button ''aria-label'')
           \<and> \<not> present (labelledBy_text example_page login_button)
           \<and> \<not> present (getAttribute login_button ''placeholder'')
           \<and> \<not> present (getAttribute login_button ''alt'')"
    by code_simp
  from label_length [of long_label_button example_page] a t
  have 1: "getLabel example_page long_label_button = replicate 161 CHR ''a''" by simp
  from label_length [of login_button example_page] b
  have 2: "length (getLabel example_page login_button) \<le> 160" by simp
  from a b 1 2 show ?thesis by simp
qed

text \<open>
  Claim C4 as the specification states it fails at an \<open>aria-label\<close> of 161
  characters: the label has 161 characters.
\<close>

theorem long_aria_label_counterexample:
  "length (getLabel example_page long_label_button) = 161"
  by code_simp

section \<open>Properties of the type action\<close>

lemma typed_value_cases:
  "typed_value action =
     (if \<not> nullish (field action ''value'') then field action ''value''
      else if \<not> nullish (field action ''text'') then field action ''text''
      else Str [])"
  by (simp add: typed_value_def js_coalesce_def)

lemma do_all_completes:
  "\<forall>ef \<in> set efs. throws ef = None \<Longrightarrow> do_all throws sofar efs = Inr (sofar @ efs)"
  by (induction efs arbitrary: sofar) simp_all

lemma finish_with_completes:
  "\<forall>ef \<in> set efs. throws ef = None \<Longrightarrow> finish_with throws sofar efs r = Inr (sofar @ efs, r)"
  by (simp add: finish_with_def do_all_completes)

text \<open>
  Claim C9, as the code has it. For a \<open>type\<close> action with a \<open>text\<close> string and no
  \<open>value\<close>, whose target resolves, the executor scrolls to the element, focuses it,
  assigns the \<open>text\<close> string to its value (to its inner text when it is
  content-editable) and dispatches \<open>input\<close> and \<open>change\<close>, provided none of these
  operations throws. When the action has no selector and the text is not empty, the
  target is the first candidate whose label contains the text, so the same string
  locates and is typed. When \<open>value\<close> and \<open>text\<close> are each a string or absent, the
  value assigned is a string, and it is the empty string only when \<open>value\<close> and
  \<open>text\<close> are both absent, or \<open>value\<close> is the empty string, or \<open>value\<close> is absent
  and \<open>text\<close> is the empty string.
\<close>

theorem type_action_types_text:
  "(field action ''type'' = Str ''type'' \<and> nullish (field action ''value'')
      \<and> field action ''text'' = Str t \<and> resolveTarget B qs pg action = Inr (Some p)
      \<and> (\<forall>ef \<in> set [ScrollIntoView p, Focus p,
                       (if (case element_at pg p of Some e \<Rightarrow> isContentEditable e | None \<Rightarrow> False)
                        then SetInnerText p (Str t) else SetValue p (Str t)),
                       DispatchEvent p ''input'', DispatchEvent p ''change'']. throws ef = None) \<longrightarrow>
      performAction B qs throws pg action =
        Inr ([ScrollIntoView p, Focus p,
              (if (case element_at pg p of Some e \<Rightarrow> isContentEditable e | None \<Rightarrow> False)
               then SetInnerText p (Str t) else SetValue p (Str t)),
              DispatchEvent p ''input'', DispatchEvent p ''change''],
             Ok ''typed''))
   \<and> (\<not> truthy (field action ''selector'') \<and> field action ''text'' = Str t \<and> t \<noteq> [] \<longrightarrow>
      resolveTarget B qs pg action
        = Inr (List.find (label_matches pg (toLowerCase t)) (candidates pg)))
   \<and> (string_or_absent (field action ''value'') \<and> string_or_absent (field action ''text'') \<longrightarrow>
        (\<exists>s. typed_value action = Str s)
        \<and> (typed_value action = Str [] \<longrightarrow>
             (nullish (field action ''value'') \<and> nullish (field action ''text''))
             \<or> field action ''value'' = Str []
             \<or> (nullish (field action ''value'') \<and> field action ''text'' = Str [])))"
proof (intro conjI impI)
  define setter where "setter =
    (if (case element_at pg p of Some e \<Rightarrow> isContentEditable e | None \<Rightarrow> False)
     then SetInnerText p (Str t) else SetValue p (Str t))"
  assume a: "field action ''type'' = Str ''type'' \<and> nullish (field action ''value'')
      \<and> field action ''text'' = Str t \<and> resolveTarget B qs pg action = Inr (Some p)
      \<and> (\<forall>ef \<in> set [ScrollIntoView p, Focus p,
                       (if (case element_at pg p of Some e \<Rightarrow> isContentEditable e | None \<Rightarrow> False)
                        then SetInnerText p (Str t) else SetValue p (Str t)),
                       DispatchEvent p ''input'', DispatchEvent p ''change'']. throws ef = None)"
  then have nn: "\<not> nullish action"
    by (auto simp: nullish_def)
  from a have tv: "typed_value action = Str t"
    by (simp add: typed_value_cases nullish_def)
  from a have c1: "do_all throws [] [ScrollIntoView p] = Inr [ScrollIntoView p]"
    by simp
  from a have c2: "\<forall>ef \<in> set [Focus p, setter, DispatchEvent p ''input'', DispatchEvent p ''change''].
                      throws ef = None"
    by (simp add: setter_def)
  have "performAction B qs throws pg action =
          finish_with throws [ScrollIntoView p]
            [Focus p, setter, DispatchEvent p ''input'', DispatchEvent p ''change''] (Ok ''typed'')"
    using a nn tv c1 by (simp add: performAction_def Let_def setter_def)
  also have "\<dots> = Inr ([ScrollIntoView p] @ [Focus p, setter, DispatchEvent p ''input'',
                                               DispatchEvent p ''change''], Ok ''typed'')"
    using c2 by (rule finish_with_completes)
  finally show "performAction B qs throws pg action =
        Inr ([ScrollIntoView p, Focus p,
              (if (case element_at pg p of Some e \<Rightarrow> isContentEditable e | None \<Rightarrow> False)
               then SetInnerText p (Str t) else SetValue p (Str t)),
              DispatchEvent p ''input'', DispatchEvent p ''change''],
             Ok ''typed'')"
    by (simp add: setter_def)
next
  assume "\<not> truthy (field action ''selector'') \<and> field action ''text'' = Str t \<and> t \<noteq> []"
  then show "resolveTarget B qs pg action
        = Inr (List.find (label_matches pg (toLowerCase t)) (candidates pg))"
    by (simp add: resolveTarget_def resolve_by_text_def)
next
  assume "string_or_absent (field action ''value'') \<and> string_or_absent (field action ''text'')"
  then show "\<exists>s. typed_value action = Str s"
    by (auto simp: typed_value_cases string_or_absent_def nullish_def split: jsval.splits)
next
  assume "typed_value action = Str []"
  then show "(nullish (field action ''value'') \<and> nullish (field action ''text''))
        \<or> field action ''value'' = Str []
        \<or> (nullish (field action ''value'') \<and> field action ''text'' = Str [])"
    by (auto simp: typed_value_cases split: if_splits)
qed

text \<open>
  The theorem at the action \<open>{type: "type", text: "log"}\<close> on the example page, which
  finds the login button by its label and assigns \<open>log\<close> to its value, and at the
  action \<open>{type: "type"}\<close>, whose assigned string is empty.
\<close>

theorem type_action_types_text_witness:
  "field type_by_text ''type'' = Str ''type'' \<and> nullish (field type_by_text ''value'')
   \<and> field type_by_text ''text'' = Str ''log''
   \<and> \<not> truthy (field type_by_text ''selector'')
   \<and> resolveTarget example_builtins example_query example_page type_by_text = Inr (Some [1, 2])
   \<and> performAction example_builtins example_query example_throws example_page type_by_text =
        Inr ([ScrollIntoView [1, 2], Focus [1, 2], SetValue [1, 2] (Str ''log''),
              DispatchEvent [1, 2] ''input'', DispatchEvent [1, 2] ''change''], Ok ''typed'')
   \<and> string_or_absent (field (Obj [(''type'', Str ''type'')]) ''value'')
   \<and> string_or_absent (field (Obj [(''type'', Str ''type'')]) ''text'')
   \<and> typed_value (Obj [(''type'', Str ''type'')]) = Str []
   \<and> nullish (field (Obj [(''type'', Str ''type'')]) ''value'')
   \<and> nullish (field (Obj [(''type'', Str ''type'')]) ''text'')"
proof -
  have h: "field type_by_text ''type'' = Str ''type'' \<and> nullish (field type_by_text ''value'')
           \<and> field type_by_text ''text'' = Str ''log''
           \<and> \<not> truthy (field type_by_text ''selector'')"
    by (simp add: type_by_text_def nullish_def)
  have f: "List.find (label_matches example_page (toLowerCase ''log'')) (candidates example_page)
             = Some [1, 2]"
    by code_simp
  have e: "(case element_at example_page [1, 2] of Some e \<Rightarrow> isContentEditable e | None \<Rightarrow> False)
             = False"
    by code_simp
  have c: "\<forall>ef \<in> set [ScrollIntoView [1, 2], Focus [1, 2],
                       (if (case element_at example_page [1, 2] of Some e \<Rightarrow> isContentEditable e
                            | None \<Rightarrow> False)
                        then SetInnerText [1, 2] (Str ''log'') else SetValue [1, 2] (Str ''log'')),
                       DispatchEvent [1, 2] ''input'', DispatchEvent [1, 2] ''change''].
             example_throws ef = None"
    by (simp add: example_throws_def)
  note inst = type_action_types_text [of type_by_text "''log''" example_builtins example_query
      example_page "[1, 2]" example_throws]
  from inst h f have r: "resolveTarget example_builtins example_query example_page type_by_text
      = Inr (Some [1, 2])"
    by simp
  from inst h r c have "performAction example_builtins example_query example_throws example_page
        type_by_text =
        Inr ([ScrollIntoView [1, 2], Focus [1, 2],
              (if (case element_at example_page [1, 2] of Some e \<Rightarrow> isContentEditable e
                   | None \<Rightarrow> False)
               then SetInnerText [1, 2] (Str ''log'') else SetValue [1, 2] (Str ''log'')),
              DispatchEvent [1, 2] ''input'', DispatchEvent [1, 2] ''change''], Ok ''typed'')"
    by blast
  then have p: "performAction example_builtins example_query example_throws example_page
        type_by_text =
        Inr ([ScrollIntoView [1, 2], Focus [1, 2], SetValue [1, 2] (Str ''log''),
              DispatchEvent [1, 2] ''input'', DispatchEvent [1, 2] ''change''], Ok ''typed'')"
    by (simp only: e if_False)
  have s: "string_or_absent (field (Obj [(''type'', Str ''type'')]) ''value'')"
    "string_or_absent (field (Obj [(''type'', Str ''type'')]) ''text'')"
    by (simp_all add: string_or_absent_def)
  have v: "typed_value (Obj [(''type'', Str ''type'')]) = Str []"
    by (simp add: typed_value_cases nullish_def)
  from type_action_types_text [of "Obj [(''type'', Str ''type'')]"] s v
  have "nullish (field (Obj [(''type'', Str ''type'')]) ''value'')
        \<and> nullish (field (Obj [(''type'', Str ''type'')]) ''text'')"
    by (simp add: nullish_def)
  with h r p s v show ?thesis by simp
qed

text \<open>
  Claim C9 as the specification states it fails at the action
  \<open>{type: "type", selector: "#login", value: ""}\<close>: the empty string is typed although
  \<open>value\<close> is present.
\<close>

theorem empty_value_typed_counterexample:
  "field type_empty_value ''type'' = Str ''type''
   \<and> field type_empty_value ''value'' = Str []
   \<and> \<not> nullish (field type_empty_value ''value'')
   \<and> performAction example_builtins example_query example_throws example_page type_empty_value =
        Inr ([ScrollIntoView [1, 2], Focus [1, 2], SetValue [1, 2] (Str []),
              DispatchEvent [1, 2] ''input'', DispatchEvent [1, 2] ''change''], Ok ''typed'')"
  by code_simp

section \<open>Selectors and the re-query\<close>

lemma paths_of_children_mem:
  "j < length ks \<Longrightarrow> q \<in> set (paths_from (ks ! j)) \<Longrightarrow> (i + j) # q \<in> set (paths_of_children i ks)"
proof (induction ks arbitrary: i j)
  case Nil
  then show ?case by simp
next
  case (Cons k ks)
  show ?case
  proof (cases j)
    case 0
    with Cons.prems show ?thesis by simp
  next
    case (Suc j')
    with Cons.prems have "(Suc i + j') # q \<in> set (paths_of_children (Suc i) ks)"
      by (intro Cons.IH) simp_all
    with Suc show ?thesis by simp
  qed
qed

lemma node_at_in_paths: "node_at n p = Some m \<Longrightarrow> p \<in> set (paths_from n)"
proof (induction p arbitrary: n)
  case Nil
  then show ?case by (cases n) auto
next
  case (Cons i p)
  obtain pr ks where n: "n = Node pr ks" by (cases n)
  from Cons.prems n have i: "i < length ks" and m: "node_at (ks ! i) p = Some m"
    by (simp_all split: if_splits)
  from Cons.IH[OF m] have "p \<in> set (paths_from (ks ! i))" .
  from paths_of_children_mem[OF i this, of 0] show ?case by (simp add: n)
qed

lemma element_in_all_elements: "element_at pg p = Some e \<Longrightarrow> p \<in> set (all_elements pg)"
  by (auto simp: element_at_def all_elements_def dest: node_at_in_paths)

lemma find_first:
  "x \<in> set xs \<Longrightarrow> P x \<Longrightarrow> \<forall>y \<in> set (takeWhile (\<lambda>y. y \<noteq> x) xs). \<not> P y
     \<Longrightarrow> List.find P xs = Some x"
proof (induction xs)
  case Nil
  then show ?case by simp
next
  case (Cons a xs)
  then show ?case by (cases "a = x") auto
qed

lemma find_earlier:
  "y \<in> set (takeWhile (\<lambda>y. y \<noteq> x) xs) \<Longrightarrow> P y
     \<Longrightarrow> \<exists>q \<in> set (takeWhile (\<lambda>y. y \<noteq> x) xs). List.find P xs = Some q"
proof (induction xs)
  case Nil
  then show ?case by simp
next
  case (Cons a xs)
  show ?case
  proof (cases "a = x")
    case True
    with Cons.prems show ?thesis by simp
  next
    case ne: False
    show ?thesis
    proof (cases "P a")
      case True
      with ne show ?thesis by simp
    next
      case False
      with Cons.prems ne have "y \<in> set (takeWhile (\<lambda>y. y \<noteq> x) xs)" by auto
      from Cons.IH[OF this Cons.prems(2)] ne False show ?thesis by simp
    qed
  qed
qed

lemma asciiLower_toLowerChar [simp]: "asciiLowerChar (toLowerChar c) = toLowerChar c"
proof -
  have "(of_char c :: nat) < 256" by simp
  then show ?thesis
    unfolding toLowerChar_def asciiLowerChar_def Let_def by auto
qed

lemma asciiLower_toLowerCase [simp]: "asciiLower (toLowerCase s) = toLowerCase s"
  by (simp add: toLowerCase_def asciiLower_def)

lemma node_at_append:
  "node_at n (b @ q) = (case node_at n b of None \<Rightarrow> None | Some m \<Rightarrow> node_at m q)"
proof (induction b arbitrary: n)
  case Nil
  show ?case by simp
next
  case (Cons j b)
  show ?case by (cases n) (simp add: Cons.IH)
qed

lemma node_at_snoc:
  "node_at n (q @ [i]) =
     (case node_at n q of
        None \<Rightarrow> None
      | Some parent \<Rightarrow>
          if i < length (node_children parent) then Some (node_children parent ! i) else None)"
proof (cases "node_at n q")
  case None
  then show ?thesis by (simp add: node_at_append)
next
  case (Some parent)
  then show ?thesis by (cases parent) (simp add: node_at_append)
qed

lemma path_steps_snoc:
  "node_at n q = Some parent \<Longrightarrow> i < length (node_children parent)
     \<Longrightarrow> path_steps n (q @ [i]) = path_steps n q @ [path_step (node_children parent) i]"
proof (induction q arbitrary: n)
  case Nil
  then show ?case by (cases n) auto
next
  case (Cons j q)
  then show ?case by (cases n) (simp split: if_splits)
qed

lemma path_steps_empty: "node_at n q = Some m \<Longrightarrow> (path_steps n q = []) = (q = [])"
proof (induction q arbitrary: n)
  case Nil
  show ?case by simp
next
  case (Cons j q)
  then show ?case by (cases n) (simp split: if_splits)
qed

lemma plain_html_type:
  assumes "plain_html B e"
  shows "css_ident B (toLowerCase (tagName e)) = Some (toLowerCase (tagName e))"
    and "type_matches (toLowerCase (tagName e)) e"
proof -
  from assms show "css_ident B (toLowerCase (tagName e)) = Some (toLowerCase (tagName e))"
    by (simp add: plain_html_def)
  from assms have "isHTML e" "localName e = toLowerCase (tagName e)"
    by (simp_all add: plain_html_def)
  then show "type_matches (toLowerCase (tagName e)) e"
    by (simp add: type_matches_def)
qed

text \<open>What \<open>plain_step\<close> says of a child.\<close>

lemma plain_step_child:
  assumes "plain_step B pg (q @ [i])" and "node_at (root pg) q = Some parent"
  shows "i < length (node_children parent)"
    and "plain_html B (node_props (node_children parent ! i))"
    and "types_agree (node_children parent) i"
  using assms by (simp_all add: plain_step_def Let_def)

lemma step_matches_own:
  assumes "node_at (root pg) q = Some parent" and "plain_step B pg (q @ [i])"
  shows "step_matches B pg (path_step (node_children parent) i) (q @ [i])"
proof -
  define ks where "ks = node_children parent"
  define n where "n = ks ! i"
  note ps = plain_step_child[OF assms(2,1), folded ks_def, folded n_def]
  have e: "element_at pg (q @ [i]) = Some (node_props n)"
    using assms(1) ps(1) by (simp add: element_at_def node_at_snoc ks_def n_def)
  have "\<forall>s \<in> set (take i ks). same_type (node_props n) (node_props s) = same_tag n s"
    using ps(3) by (auto simp: types_agree_def n_def dest: in_set_takeD)
  then have cnt: "filter (\<lambda>s. same_type (node_props n) (node_props s)) (take i ks)
                    = filter (same_tag n) (take i ks)"
    by (intro filter_cong) simp_all
  have t: "type_index pg (q @ [i]) = length (filter (same_tag n) (take i ks)) + 1"
    using assms(1) ps(1) cnt by (simp add: type_index_def Let_def ks_def n_def)
  show ?thesis
    unfolding step_matches_def e
    using plain_html_type[OF ps(2)] t
    by (simp add: path_step_def Let_def ks_def[symmetric] n_def[symmetric])
qed

text \<open>
  The steps of the elements on a path below a node, put in front of steps that the node
  itself and its ancestors match, are matched by the element at the end of the path.
\<close>

lemma chain_matches_own:
  assumes "node_at (root pg) b = Some nb"
  shows "node_at nb q = Some m
     \<Longrightarrow> \<forall>n. 0 < n \<and> n \<le> length q \<longrightarrow> plain_step B pg (b @ take n q)
     \<Longrightarrow> chain_matches B pg pre b
     \<Longrightarrow> chain_matches B pg (rev (path_steps nb q) @ pre) (b @ q)"
proof (induction q arbitrary: m rule: rev_induct)
  case Nil
  then show ?case by simp
next
  case (snoc i q)
  from snoc.prems(1) obtain parent where
    parent: "node_at nb q = Some parent" and i: "i < length (node_children parent)"
    by (auto simp: node_at_snoc split: option.splits if_splits)
  have abs: "node_at (root pg) (b @ q) = Some parent"
    using assms parent by (simp add: node_at_append)
  have "plain_step B pg (b @ take (length (q @ [i])) (q @ [i]))"
    using snoc.prems(2) by blast
  then have pl: "plain_step B pg ((b @ q) @ [i])" by simp
  have own: "step_matches B pg (path_step (node_children parent) i) ((b @ q) @ [i])"
    using abs pl by (rule step_matches_own)
  have steps: "path_steps nb (q @ [i]) = path_steps nb q @ [path_step (node_children parent) i]"
    using parent i by (rule path_steps_snoc)
  have "\<forall>n. 0 < n \<and> n \<le> length q \<longrightarrow> plain_step B pg (b @ take n q)"
  proof (intro allI impI)
    fix n assume n: "0 < n \<and> n \<le> length q"
    then have "0 < n \<and> n \<le> length (q @ [i])" by simp
    with snoc.prems(2) have "plain_step B pg (b @ take n (q @ [i]))" by blast
    with n show "plain_step B pg (b @ take n q)" by simp
  qed
  from snoc.IH[OF parent this snoc.prems(3)]
  have "chain_matches B pg (rev (path_steps nb q) @ pre) (b @ q)" .
  with own show ?case
    unfolding steps by (simp add: butlast_append)
qed

lemma path_steps_readable:
  assumes "node_at (root pg) b = Some nb"
  shows "node_at nb q = Some m
     \<Longrightarrow> \<forall>n. 0 < n \<and> n \<le> length q \<longrightarrow> plain_step B pg (b @ take n q)
     \<Longrightarrow> list_all (\<lambda>st. css_ident B (fst st) \<noteq> None) (path_steps nb q)"
proof (induction q arbitrary: m rule: rev_induct)
  case Nil
  then show ?case by simp
next
  case (snoc i q)
  from snoc.prems(1) obtain parent where
    parent: "node_at nb q = Some parent" and i: "i < length (node_children parent)"
    by (auto simp: node_at_snoc split: option.splits if_splits)
  have abs: "node_at (root pg) (b @ q) = Some parent"
    using assms parent by (simp add: node_at_append)
  have "plain_step B pg (b @ take (length (q @ [i])) (q @ [i]))"
    using snoc.prems(2) by blast
  then have pl: "plain_step B pg ((b @ q) @ [i])" by simp
  have here: "css_ident B (fst (path_step (node_children parent) i)) \<noteq> None"
    using plain_html_type(1)[OF plain_step_child(2)[OF pl abs]]
    by (simp add: path_step_def Let_def)
  have steps: "path_steps nb (q @ [i]) = path_steps nb q @ [path_step (node_children parent) i]"
    using parent i by (rule path_steps_snoc)
  have "\<forall>n. 0 < n \<and> n \<le> length q \<longrightarrow> plain_step B pg (b @ take n q)"
  proof (intro allI impI)
    fix n assume n: "0 < n \<and> n \<le> length q"
    then have "0 < n \<and> n \<le> length (q @ [i])" by simp
    with snoc.prems(2) have "plain_step B pg (b @ take n (q @ [i]))" by blast
    with n show "plain_step B pg (b @ take n q)" by simp
  qed
  from snoc.IH[OF parent this] here show ?case
    unfolding steps by simp
qed

text \<open>The two cases of the structural path: below the body, and not.\<close>

lemma structural_path_matches:
  assumes "element_at pg p = Some e"
    and "list_all (plain_step B pg) (path_elements pg p)"
  shows "chain_matches B pg (rev (structural_path pg p)) p"
    and "list_all (\<lambda>st. css_ident B (fst st) \<noteq> None) (structural_path pg p)"
proof -
  from assms(1) obtain m where m: "node_at (root pg) p = Some m"
    by (auto simp: element_at_def)
  have both: "chain_matches B pg (rev (structural_path pg p)) p
              \<and> list_all (\<lambda>st. css_ident B (fst st) \<noteq> None) (structural_path pg p)"
  proof (cases "below_body pg p")
    case True
    then obtain b nb where b: "body_path pg = Some b" "node_at (root pg) b = Some nb"
      "take (length b) p = b"
      by (auto simp: below_body_def split: option.splits)
    define q where "q = drop (length b) p"
    have p: "p = b @ q"
      using b(3) append_take_drop_id[of "length b" p] by (simp add: q_def)
    have mq: "node_at nb q = Some m"
      using m b(2) by (simp add: p node_at_append)
    have pl: "\<forall>n. 0 < n \<and> n \<le> length q \<longrightarrow> plain_step B pg (b @ take n q)"
    proof (intro allI impI)
      fix n assume n: "0 < n \<and> n \<le> length q"
      then have "length b + n \<in> {Suc (length b)..<Suc (length p)}"
        by (simp add: p)
      then have "take (length b + n) p \<in> (\<lambda>k. take k p) ` {Suc (length b)..<Suc (length p)}"
        by (rule imageI)
      then have "take (length b + n) p \<in> set (path_elements pg p)"
        using True b(1) by (simp add: path_elements_def del: upt_Suc)
      with assms(2) have "plain_step B pg (take (length b + n) p)"
        by (simp add: list_all_iff)
      then show "plain_step B pg (b @ take n q)" by (simp add: p)
    qed
    have sp: "structural_path pg p = path_steps nb q"
      using True b by (simp add: structural_path_def body_node_def q_def)
    from chain_matches_own[OF b(2) mq pl, of "[]"] path_steps_readable[OF b(2) mq pl]
    have "chain_matches B pg (rev (path_steps nb q)) p
          \<and> list_all (\<lambda>st. css_ident B (fst st) \<noteq> None) (path_steps nb q)"
      by (simp add: p)
    then show ?thesis by (simp only: sp)
  next
    case False
    define rstep where "rstep = (toLowerCase (tagName (node_props (root pg))), None :: nat option)"
    have r: "node_at (root pg) [] = Some (root pg)" by simp
    have all: "\<forall>n \<le> length p. plain_step B pg (take n p)"
    proof (intro allI impI)
      fix n assume "n \<le> length p"
      then have "n \<in> {0..<Suc (length p)}" by simp
      then have "take n p \<in> (\<lambda>k. take k p) ` {0..<Suc (length p)}"
        by (rule imageI)
      then have "take n p \<in> set (path_elements pg p)"
        using False by (simp add: path_elements_def del: upt_Suc)
      with assms(2) show "plain_step B pg (take n p)" by (simp add: list_all_iff)
    qed
    from all have "plain_step B pg (take 0 p)" by blast
    then have ph: "plain_html B (node_props (root pg))" by (simp add: plain_step_def)
    have rm: "chain_matches B pg [rstep] []"
      using plain_html_type[OF ph]
      by (simp add: rstep_def step_matches_def element_at_def)
    have pl: "\<forall>n. 0 < n \<and> n \<le> length p \<longrightarrow> plain_step B pg ([] @ take n p)"
      using all by simp
    have sp: "structural_path pg p = rstep # path_steps (root pg) p"
      using False by (simp add: structural_path_def rstep_def)
    from chain_matches_own[OF r m pl rm] path_steps_readable[OF r m pl] plain_html_type(1)[OF ph]
    show ?thesis by (simp add: sp rstep_def)
  qed
  from both show "chain_matches B pg (rev (structural_path pg p)) p"
    and "list_all (\<lambda>st. css_ident B (fst st) \<noteq> None) (structural_path pg p)"
    by simp_all
qed

lemma own_selector_matches:
  assumes "element_at pg p = Some e" and "reads_back B pg p e (getSelector pg p e)"
  shows "sel_matches B pg (getSelector pg p e) p \<and> readable B (getSelector pg p e)
         \<and> getSelector pg p e \<noteq> PathSel []"
proof (cases "getSelector pg p e")
  case (IdSel i)
  then have "element_id e = i" "i \<noteq> []"
    by (auto simp: getSelector_def split: if_splits)
  then have "getAttribute e ''id'' = Some i"
    by (auto simp: element_id_def split: option.splits)
  with assms IdSel \<open>i \<noteq> []\<close> show ?thesis
    by (simp add: reads_back_def id_matches_def)
next
  case (AttrSel t a v)
  then have t: "t = None \<or> t = Some (toLowerCase (tagName e))"
    by (auto simp: getSelector_def split: if_splits)
  from assms(2) AttrSel have rb: "css_string B (escapeAttr v) = Some v" "getAttribute e a = Some v"
    "t = None \<or> plain_html B e"
    by (simp_all add: reads_back_def)
  show ?thesis
  proof (cases t)
    case None
    with assms(1) AttrSel rb show ?thesis by simp
  next
    case (Some tg)
    with t rb(3) have tg: "tg = toLowerCase (tagName e)" and ph: "plain_html B e" by simp_all
    from plain_html_type[OF ph] assms(1) AttrSel rb Some tg show ?thesis by simp
  qed
next
  case (PathSel steps)
  then have steps: "steps = structural_path pg p"
    by (auto simp: getSelector_def split: if_splits)
  from assms(2) PathSel have rb: "steps \<noteq> []" "list_all (plain_step B pg) (path_elements pg p)"
    by (simp_all add: reads_back_def)
  from structural_path_matches[OF assms(1) rb(2)] rb(1) PathSel steps show ?thesis
    by simp
qed




text \<open>
  A field known by \<open>data-test\<close> or \<open>data-qa\<close> gets a selector on \<open>data-testid\<close>, an
  attribute it does not have: the selector does not match the field.
\<close>

lemma data_test_selector_misses:
  "element_at example_page [1, 3] = Some notes_field
   \<and> selector_text example_builtins (getSelector example_page [1, 3] notes_field)
       = ''[data-testid='' @ [CHR 0x22] @ ''notes'' @ [CHR 0x22] @ '']''
   \<and> querySelector_sel example_builtins example_page (getSelector example_page [1, 3] notes_field)
       = Some (Inr None)"
  by code_simp

text \<open>
  A button inside an SVG \<open>foreignObject\<close> gets the path
  \<open>svg > foreignobject > button\<close>: the tag name is put in lower case, the type selector
  of an SVG element is compared letter for letter, and the path matches nothing.
\<close>

lemma foreign_path_misses:
  "element_at svg_page [1, 0, 0, 0] = Some zoom_button
   \<and> selector_text example_builtins (getSelector svg_page [1, 0, 0, 0] zoom_button)
       = ''svg > foreignobject > button''
   \<and> \<not> reads_back example_builtins svg_page [1, 0, 0, 0] zoom_button
          (getSelector svg_page [1, 0, 0, 0] zoom_button)
   \<and> querySelector_sel example_builtins svg_page (getSelector svg_page [1, 0, 0, 0] zoom_button)
       = Some (Inr None)"
  by code_simp

section \<open>How the parts of the loop change the world\<close>

lemma calls_append [simp]: "calls (xs @ ys) = calls xs @ calls ys"
  by (simp add: calls_def)

lemma calls_Nil [simp]: "calls [] = []"
  by (simp add: calls_def)

lemma calls_Cons [simp]: "calls (e # es) = (if is_call e then e # calls es else calls es)"
  by (simp add: calls_def)

lemma emit_fields [simp]:
  "rs (emit e w) = rs w" "now (emit e w) = now w" "trace (emit e w) = trace w @ [e]"
  by (simp_all add: emit_def)

lemma log_fields [simp]:
  "running (rs (log B entry w)) = running (rs w)"
  "stopRequested (rs (log B entry w)) = stopRequested (rs w)"
  "tabId (rs (log B entry w)) = tabId (rs w)"
  "startedAt (rs (log B entry w)) = startedAt (rs w)"
  "stoppedAt (rs (log B entry w)) = stoppedAt (rs w)"
  "now (log B entry w) = now w"
  "trace (log B entry w) = trace w @ [Sent (AGENT_LOG (log_line B (now w) entry))]"
  "logs (rs (log B entry w)) = logs (rs w) @ [log_line B (now w) entry]"
  by (simp_all add: log_def Let_def)

lemma sendStatus_fields [simp]:
  "rs (sendStatus w) = rs w" "now (sendStatus w) = now w"
  "trace (sendStatus w) =
     trace w @ [Sent (AGENT_STATUS (running (rs w)) (startedAt (rs w)) (stoppedAt (rs w))
                        (logs (rs w)))]"
  by (simp_all add: sendStatus_def)

lemma handle_fields [simp]:
  "running (rs (handle B c w)) = running (rs w)"
  "stopRequested (rs (handle B c w)) = (stopRequested (rs w) \<or> c = POPUP_STOP)"
  "startedAt (rs (handle B c w)) = startedAt (rs w)"
  "stoppedAt (rs (handle B c w)) = stoppedAt (rs w)"
  "tabId (rs (handle B c w)) = tabId (rs w)"
  "now (handle B c w) = now w"
  "calls (trace (handle B c w)) = calls (trace w)"
  by (cases c; simp)+

lemma handle_all_fields [simp]:
  "running (rs (handle_all B cs w)) = running (rs w)"
  "stopRequested (rs (handle_all B cs w)) = (stopRequested (rs w) \<or> POPUP_STOP \<in> set cs)"
  "startedAt (rs (handle_all B cs w)) = startedAt (rs w)"
  "stoppedAt (rs (handle_all B cs w)) = stoppedAt (rs w)"
  "tabId (rs (handle_all B cs w)) = tabId (rs w)"
  "now (handle_all B cs w) = now w"
  "calls (trace (handle_all B cs w)) = calls (trace w)"
  by (induction cs arbitrary: w; auto)+

lemma suspend_fields [simp]:
  "running (rs (suspend B E pt w)) = running (rs w)"
  "stopRequested (rs (suspend B E pt w))
     = (stopRequested (rs w) \<or> POPUP_STOP \<in> set (incoming E pt))"
  "startedAt (rs (suspend B E pt w)) = startedAt (rs w)"
  "stoppedAt (rs (suspend B E pt w)) = stoppedAt (rs w)"
  "tabId (rs (suspend B E pt w)) = tabId (rs w)"
  "now (suspend B E pt w) = now w + elapsed E pt"
  "calls (trace (suspend B E pt w)) = calls (trace w)"
  by (simp_all add: suspend_def)

lemma handle_extends: "\<exists>new. trace (handle B c w) = trace w @ new"
  by (cases c) simp_all

lemma handle_all_extends: "\<exists>new. trace (handle_all B cs w) = trace w @ new"
proof (induction cs arbitrary: w)
  case Nil
  show ?case by simp
next
  case (Cons c cs)
  obtain n1 where n1: "trace (handle B c w) = trace w @ n1"
    using handle_extends by blast
  obtain n2 where "trace (handle_all B cs (handle B c w)) = trace (handle B c w) @ n2"
    using Cons.IH by blast
  with n1 show ?case by simp
qed

lemma suspend_extends: "\<exists>new. trace (suspend B E pt w) = trace w @ new"
  using handle_all_extends [of B "incoming E pt" "w\<lparr>now := now w + elapsed E pt\<rparr>"]
  by (simp add: suspend_def)

text \<open>Traces only grow.\<close>

lemma trace_extends_refl [simp]: "trace_extends w w"
  by (simp add: trace_extends_def)

lemma trace_extends_trans:
  "trace_extends w w1 \<Longrightarrow> trace_extends w1 w2 \<Longrightarrow> trace_extends w w2"
  by (auto simp: trace_extends_def)

lemma trace_extends_basic [simp]:
  "trace_extends w (log B e w)" "trace_extends w (emit ev w)" "trace_extends w (sendStatus w)"
  "trace_extends w (suspend B E pt w)"
  using suspend_extends[of B E pt w] by (simp_all add: trace_extends_def)

lemma trace_extends_step:
  "trace_extends w w' \<Longrightarrow> trace_extends w (log B e w')"
  "trace_extends w w' \<Longrightarrow> trace_extends w (emit ev w')"
  "trace_extends w w' \<Longrightarrow> trace_extends w (sendStatus w')"
  "trace_extends w w' \<Longrightarrow> trace_extends w (suspend B E pt w')"
  by (erule trace_extends_trans, simp)+

lemma logged_log:
  assumes "trace_extends w w1"
  shows "logged B entry w (log B entry w1)"
proof -
  from assms obtain new where new: "trace w1 = trace w @ new"
    by (auto simp: trace_extends_def)
  have "trace (log B entry w1) = trace w @ (new @ [Sent (AGENT_LOG (log_line B (now w1) entry))])"
    using new by simp
  moreover have "Sent (AGENT_LOG (log_line B (now w1) entry))
                   \<in> set (new @ [Sent (AGENT_LOG (log_line B (now w1) entry))])"
    by simp
  ultimately show ?thesis
    unfolding logged_def by blast
qed

lemma logged_then: "logged B entry w w1 \<Longrightarrow> trace_extends w1 w2 \<Longrightarrow> logged B entry w w2"
  unfolding trace_extends_def logged_def by fastforce

lemma logged_extends: "logged B entry w w1 \<Longrightarrow> trace_extends w w1"
  unfolding trace_extends_def logged_def by blast

lemma after_extends: "trace_extends w w1 \<Longrightarrow> logged B entry w1 w2 \<Longrightarrow> logged B entry w w2"
  unfolding trace_extends_def logged_def by fastforce

lemma perform_one_fields [simp]:
  "running (rs (perform_one B E S tab step k a shown w)) = running (rs w)"
  "stopRequested (rs (perform_one B E S tab step k a shown w))
     = (stopRequested (rs w) \<or> POPUP_STOP \<in> set (incoming E (AtPerform step k))
        \<or> POPUP_STOP \<in> set (incoming E (AtSleep step k)))"
  "calls (trace (perform_one B E S tab step k a shown w))
     = calls (trace w) @ action_calls S tab a"
  by (auto simp: perform_one_def action_calls_def Let_def)

lemma perform_one_logs_outcome:
  "logged B (outcome_entry (action_result E step k)) w (perform_one B E S tab step k a shown w)"
proof -
  define w2 where "w2 = suspend B E (AtPerform step k)
                          (emit (PerformAction tab a) (log B (''Action: '' @ shown) w))"
  define w3 where "w3 = log B (outcome_entry (action_result E step k)) w2"
  have "trace_extends w w2"
    unfolding w2_def by (intro trace_extends_step trace_extends_refl)
  then have l: "logged B (outcome_entry (action_result E step k)) w w3"
    unfolding w3_def by (rule logged_log)
  have "trace_extends w3 (suspend B E (AtSleep step k) (emit (Sleep (stepDelayMs S)) w3))"
    by (intro trace_extends_step trace_extends_refl)
  with l have "logged B (outcome_entry (action_result E step k)) w
                 (suspend B E (AtSleep step k) (emit (Sleep (stepDelayMs S)) w3))"
    by (rule logged_then)
  then show ?thesis
    by (simp add: perform_one_def Let_def w2_def w3_def)
qed

lemma trace_extends_perform_one: "trace_extends w (perform_one B E S tab step k a shown w)"
  using perform_one_logs_outcome by (rule logged_extends)

lemma capture_settled_fields [simp]:
  "running (rs (snd (capture_settled B E step w))) = running (rs w)"
  "stopRequested (rs (snd (capture_settled B E step w))) = stopRequested (rs w)"
  "calls (trace (snd (capture_settled B E step w))) = calls (trace w)"
  "fst (capture_settled B E step w)
     = (case capture_result E step of Inl msg \<Rightarrow> None | Inr dataUrl \<Rightarrow> screenshot_of dataUrl)"
  by (simp_all add: capture_settled_def split: sum.splits)

lemma trace_extends_capture_settled:
  "trace_extends w w' \<Longrightarrow> trace_extends w (snd (capture_settled B E step w'))"
  by (auto simp: capture_settled_def split: sum.splits intro: trace_extends_step)

lemma capture_settled_logs:
  "capture_result E step = Inl msg \<Longrightarrow> trace_extends w w'
     \<Longrightarrow> logged B (''Screenshot failed: '' @ msg) w (snd (capture_settled B E step w'))"
  by (simp add: capture_settled_def logged_log)

lemma perceive_snd:
  "snd (perceive B E S tab opts step w) =
     (let w1 = emit (CollectState tab opts) w in
      if fastMode S then
        (let w2 = suspend B E (AtCollect step) w1
         in case collect_result E step of
              Inl msg \<Rightarrow> log B (''State collection failed: '' @ msg) w2
            | Inr state \<Rightarrow> w2)
      else
        let w2 = suspend B E (AtCollect step) (emit (CaptureScreenshot tab) w1)
        in if capture_first E step then
             (let w4 = suspend B E (AtJoin step) (snd (capture_settled B E step w2))
              in case collect_result E step of
                   Inl msg \<Rightarrow> log B (''State collection failed: '' @ msg) w4
                 | Inr state \<Rightarrow> w4)
           else
             (case collect_result E step of
                Inl msg \<Rightarrow> log B (''State collection failed: '' @ msg) w2
              | Inr state \<Rightarrow> snd (capture_settled B E step (suspend B E (AtJoin step) w2))))"
  by (simp add: perceive_def Let_def split: sum.splits prod.splits)

lemma perceive_result:
  "fst (perceive B E S tab opts step w)
     = (case collect_result E step of
          Inl msg \<Rightarrow> None
        | Inr state \<Rightarrow> Some (state, screenshot_at E S step))"
proof -
  have c: "fst (capture_settled B E step w') = screenshot_at E S step" if "\<not> fastMode S" for w'
    using that by (simp add: screenshot_at_def)
  show ?thesis
    by (auto simp: perceive_def Let_def screenshot_at_def capture_settled_def
             split: sum.splits prod.splits)
qed

lemma perceive_fields [simp]:
  "running (rs (snd (perceive B E S tab opts step w))) = running (rs w)"
  "calls (trace (snd (perceive B E S tab opts step w)))
     = calls (trace w) @ CollectState tab opts # (if fastMode S then [] else [CaptureScreenshot tab])"
  by (simp_all add: perceive_snd Let_def split: sum.splits)

lemma perceive_no_stop:
  "\<not> stopRequested (rs w) \<Longrightarrow> POPUP_STOP \<notin> set (incoming E (AtCollect step))
     \<Longrightarrow> POPUP_STOP \<notin> set (incoming E (AtJoin step))
     \<Longrightarrow> \<not> stopRequested (rs (snd (perceive B E S tab opts step w)))"
  by (simp add: perceive_snd Let_def split: sum.splits)

lemma trace_extends_perceive: "trace_extends w (snd (perceive B E S tab opts step w))"
  unfolding perceive_snd Let_def
  by (auto split: sum.splits
           intro!: trace_extends_step trace_extends_capture_settled trace_extends_refl)

lemma perceive_logs_capture_failure:
  assumes "\<not> fastMode S" and "capture_result E step = Inl msg"
    and "collect_result E step = Inr state"
  shows "logged B (''Screenshot failed: '' @ msg) w (snd (perceive B E S tab opts step w))"
proof -
  define w2 where "w2 = suspend B E (AtCollect step)
                          (emit (CaptureScreenshot tab) (emit (CollectState tab opts) w))"
  have e2: "trace_extends w w2"
    unfolding w2_def by (intro trace_extends_step trace_extends_refl)
  show ?thesis
  proof (cases "capture_first E step")
    case True
    then have "snd (perceive B E S tab opts step w)
                 = suspend B E (AtJoin step) (snd (capture_settled B E step w2))"
      using assms by (simp add: perceive_snd Let_def w2_def)
    then show ?thesis
      using logged_then[OF capture_settled_logs[OF assms(2) e2] trace_extends_basic(4)]
      by simp
  next
    case False
    then have "snd (perceive B E S tab opts step w)
                 = snd (capture_settled B E step (suspend B E (AtJoin step) w2))"
      using assms by (simp add: perceive_snd Let_def w2_def)
    then show ?thesis
      using capture_settled_logs[OF assms(2) trace_extends_step(4)[OF e2]]
      by simp
  qed
qed

lemma run_actions_no_stop:
  "\<not> stopRequested (rs w) \<Longrightarrow> dispatchable a \<Longrightarrow>
     run_actions B E S tab step k (a # rest) w
       = run_actions B E S tab step (Suc k) rest
           (perform_one B E S tab step k a (string_of B (field a ''type'')) w)"
  by (simp add: dispatchable_def ToString_def)

lemma run_actions_stopped:
  "stopRequested (rs w) \<Longrightarrow> run_actions B E S tab step k acts w = (Returned, w)"
  by (cases acts) simp_all

lemma run_actions_undispatchable:
  "\<not> stopRequested (rs w) \<Longrightarrow> \<not> dispatchable a \<Longrightarrow>
     run_actions B E S tab step k (a # rest) w = (Rejected ''TypeError'', w)"
  by (auto simp: dispatchable_def ToString_def)

lemma run_steps_stopped:
  "stopRequested (rs w) \<Longrightarrow> run_steps B E S tab opts steps w = (Returned, w)"
  by (cases steps) simp_all

text \<open>What the loop over the actions does in general.\<close>

lemma run_actions_general:
  "\<exists>n \<le> length acts.
     calls (trace (snd (run_actions B E S tab step k acts w)))
       = calls (trace w) @ concat (map (action_calls S tab) (take n acts))
     \<and> running (rs (snd (run_actions B E S tab step k acts w))) = running (rs w)
     \<and> trace_extends w (snd (run_actions B E S tab step k acts w))"
proof (induction acts arbitrary: k w)
  case Nil
  show ?case by simp
next
  case (Cons a acts)
  show ?case
  proof (cases "stopRequested (rs w)")
    case True
    show ?thesis
      unfolding run_actions_stopped[OF True] by (intro exI[of _ 0]) simp
  next
    case ns: False
    show ?thesis
    proof (cases "dispatchable a")
      case False
      show ?thesis
        unfolding run_actions_undispatchable[OF ns False] by (intro exI[of _ 0]) simp
    next
      case True
      define w' where "w' = perform_one B E S tab step k a (string_of B (field a ''type'')) w"
      obtain n where n: "n \<le> length acts"
        "calls (trace (snd (run_actions B E S tab step (Suc k) acts w')))
           = calls (trace w') @ concat (map (action_calls S tab) (take n acts))"
        "running (rs (snd (run_actions B E S tab step (Suc k) acts w'))) = running (rs w')"
        "trace_extends w' (snd (run_actions B E S tab step (Suc k) acts w'))"
        using Cons.IH by blast
      have r: "run_actions B E S tab step k (a # acts) w
                 = run_actions B E S tab step (Suc k) acts w'"
        unfolding w'_def using ns True by (rule run_actions_no_stop)
      have e: "trace_extends w w'"
        unfolding w'_def by (rule trace_extends_perform_one)
      show ?thesis
        unfolding r using n trace_extends_trans[OF e n(4)]
        by (intro exI[of _ "Suc n"]) (simp add: w'_def)
    qed
  qed
qed

lemma mode_respected_append:
  "mode_respected S tab due xs \<Longrightarrow> mode_respected S tab False ys
     \<Longrightarrow> mode_respected S tab due (xs @ ys)"
  by (induction xs arbitrary: due) (auto split: event.splits)

lemma ok_append:
  "perception_calls_ok S tab xs \<Longrightarrow> perception_calls_ok S tab ys
     \<Longrightarrow> perception_calls_ok S tab (xs @ ys)"
  unfolding perception_calls_ok_def by (rule mode_respected_append)

lemma ok_perception_calls [simp]: "perception_calls_ok S tab (perception_calls S tab)"
  by (simp add: perception_calls_ok_def perception_calls_def)

lemma ok_actions [simp]:
  "perception_calls_ok S tab (concat (map (action_calls S tab) acts))"
  unfolding perception_calls_ok_def by (induction acts) (simp_all add: action_calls_def)

lemma grows_refl [simp]: "grows S tab w w"
  by (simp add: grows_def perception_calls_ok_def)

lemma grows_trans: "grows S tab w w1 \<Longrightarrow> grows S tab w1 w2 \<Longrightarrow> grows S tab w w2"
  unfolding grows_def using ok_append by fastforce

lemma growsI:
  "calls (trace w') = calls (trace w) @ cs \<Longrightarrow> perception_calls_ok S tab cs \<Longrightarrow> grows S tab w w'"
  unfolding grows_def by blast

lemma grows_same: "calls (trace w') = calls (trace w) \<Longrightarrow> grows S tab w w'"
  by (rule growsI[where cs="[]"]) (simp_all add: perception_calls_ok_def)

lemma grows_calls: "grows S tab w w' \<Longrightarrow> \<exists>cs. calls (trace w') = calls (trace w) @ cs"
  unfolding grows_def by blast

lemma grows_run_actions: "grows S tab w (snd (run_actions B E S tab step k acts w))"
proof -
  obtain n where "calls (trace (snd (run_actions B E S tab step k acts w)))
       = calls (trace w) @ concat (map (action_calls S tab) (take n acts))"
    using run_actions_general by blast
  then show ?thesis by (rule growsI) simp
qed

lemma running_run_actions [simp]:
  "running (rs (snd (run_actions B E S tab step k acts w))) = running (rs w)"
  using run_actions_general [of acts B E S tab step k w] by blast

lemma trace_extends_run_actions:
  "trace_extends w (snd (run_actions B E S tab step k acts w))"
  using run_actions_general [of acts B E S tab step k w] by blast

lemma after_plan_fields [simp]:
  "running (rs (after_plan B d w)) = running (rs w)"
  "stopRequested (rs (after_plan B d w)) = stopRequested (rs w)"
  "calls (trace (after_plan B d w)) = calls (trace w)"
  by (simp_all add: after_plan_def)

lemma trace_extends_after_plan [simp]: "trace_extends w (after_plan B d w)"
  by (simp add: after_plan_def)

lemma log_plan_eq:
  "log_plan B d w = (if plan_prints d then Inr (after_plan B d w) else Inl TypeError)"
  by (simp add: log_plan_def plan_prints_def after_plan_def ToString_def)

lemma act_on_snd:
  "snd (act_on B E S tab step d w) =
     (if nullish d \<or> \<not> plan_prints d then w
      else if truthy (field d ''done'')
      then (if done_prints d
            then log B (''Done: '' @ string_of B (js_or (field d ''final'') (Str ''Task completed.'')))
                   (after_plan B d w)
            else after_plan B d w)
      else if actions_of d = [] then log B ''No actions returned. Stopping.'' (after_plan B d w)
      else snd (run_actions B E S tab step 0 (actions_of d) (after_plan B d w)))"
  by (auto simp: act_on_def log_plan_eq done_prints_def ToString_def Let_def
           split: prod.splits completion.splits)

lemma act_on_fst:
  "fst (act_on B E S tab step d w) =
     (if nullish d \<or> \<not> plan_prints d then (Rejected ''TypeError'', False)
      else if truthy (field d ''done'')
      then (if done_prints d then (Returned, False) else (Rejected ''TypeError'', False))
      else if actions_of d = [] then (Returned, False)
      else case fst (run_actions B E S tab step 0 (actions_of d) (after_plan B d w)) of
             Returned \<Rightarrow> (Returned, True)
           | Rejected m \<Rightarrow> (Rejected m, False))"
  by (auto simp: act_on_def log_plan_eq done_prints_def ToString_def Let_def
           split: prod.splits completion.splits)

lemma grows_act_on: "grows S tab w (snd (act_on B E S tab step d w))"
proof -
  have g1: "grows S tab w (after_plan B d w)" by (rule grows_same) simp
  have g2: "grows S tab (after_plan B d w)
              (snd (run_actions B E S tab step 0 (actions_of d) (after_plan B d w)))"
    by (rule grows_run_actions)
  have g3: "grows S tab (after_plan B d w) (log B e (after_plan B d w))" for e
    by (rule grows_same) simp
  show ?thesis
    using g1 grows_trans[OF g1 g2] grows_trans[OF g1 g3] by (simp add: act_on_snd)
qed

lemma running_act_on [simp]:
  "running (rs (snd (act_on B E S tab step d w))) = running (rs w)"
  by (simp add: act_on_snd)

lemma trace_extends_act_on: "trace_extends w (snd (act_on B E S tab step d w))"
  using trace_extends_trans[OF trace_extends_after_plan trace_extends_run_actions]
    trace_extends_trans[OF trace_extends_after_plan trace_extends_basic(1)]
  by (simp add: act_on_snd)

lemma before_model_fields [simp]:
  "running (rs (before_model B E S tab opts step w)) = running (rs w)"
  "calls (trace (before_model B E S tab opts step w))
     = calls (trace w) @ CollectState tab opts # (if fastMode S then [] else [CaptureScreenshot tab])"
  by (simp_all add: before_model_def)

lemma after_model_fields [simp]:
  "running (rs (after_model B E S tab opts step w)) = running (rs w)"
  "calls (trace (after_model B E S tab opts step w))
     = calls (trace w) @ CollectState tab opts # (if fastMode S then [] else [CaptureScreenshot tab])
       @ [CallModel step (screenshot_at E S step \<noteq> None)]"
  by (auto simp: after_model_def)

lemma after_model_no_stop:
  "\<not> stopRequested (rs w) \<Longrightarrow> POPUP_STOP \<notin> set (incoming E (AtCollect step))
     \<Longrightarrow> POPUP_STOP \<notin> set (incoming E (AtJoin step))
     \<Longrightarrow> POPUP_STOP \<notin> set (incoming E (AtModel step))
     \<Longrightarrow> \<not> stopRequested (rs (after_model B E S tab opts step w))"
  by (simp add: after_model_def before_model_def perceive_no_stop)

lemma trace_extends_before_model: "trace_extends w (before_model B E S tab opts step w)"
  unfolding before_model_def
  by (rule trace_extends_trans[OF trace_extends_basic(1) trace_extends_perceive])

lemma trace_extends_after_model: "trace_extends w (after_model B E S tab opts step w)"
  unfolding after_model_def
  by (intro trace_extends_step trace_extends_before_model)

lemma run_step_eq:
  "run_step B E S tab opts step w =
     (case collect_result E step of
        Inl msg \<Rightarrow> ((Returned, False), before_model B E S tab opts step w)
      | Inr state \<Rightarrow>
          (case model_result E step of
             Inl msg \<Rightarrow> ((Returned, False), log B msg (after_model B E S tab opts step w))
           | Inr parts \<Rightarrow>
               (case parseAgentResponse B parts of
                  Inl msg \<Rightarrow> ((Returned, False),
                               log B (''Failed to parse model JSON: '' @ msg)
                                 (after_model B E S tab opts step w))
                | Inr d \<Rightarrow> act_on B E S tab step d (after_model B E S tab opts step w))))"
proof -
  define w1 where "w1 = log B (''Collecting state (step '' @ show_nat step @ ''/''
                       @ show_nat (maxSteps S) @ '')...'') w"
  obtain r w2 where p: "perceive B E S tab opts step w1 = (r, w2)"
    by (cases "perceive B E S tab opts step w1")
  have r: "r = (case collect_result E step of
          Inl msg \<Rightarrow> None
        | Inr state \<Rightarrow> Some (state, screenshot_at E S step))"
    using perceive_result[of B E S tab opts step w1] p by simp
  have w2: "w2 = before_model B E S tab opts step w"
    using p by (simp add: before_model_def w1_def)
  show ?thesis
    unfolding run_step_def Let_def w1_def[symmetric] p
    by (simp add: r w2 after_model_def split: sum.splits)
qed

lemma grows_log: "grows S tab w w' \<Longrightarrow> grows S tab w (log B e w')"
  by (erule grows_trans) (rule grows_same, simp)

lemma grows_before_model:
  "grows S tab w (before_model B E S tab (collectOptions S) step w)"
proof (rule growsI)
  show "calls (trace (before_model B E S tab (collectOptions S) step w))
          = calls (trace w) @ perception_calls S tab"
    by (simp add: perception_calls_def)
  show "perception_calls_ok S tab (perception_calls S tab)" by simp
qed

lemma grows_after_model:
  "grows S tab w (after_model B E S tab (collectOptions S) step w)"
proof (rule growsI)
  show "calls (trace (after_model B E S tab (collectOptions S) step w))
          = calls (trace w) @ (perception_calls S tab @ [CallModel step (screenshot_at E S step \<noteq> None)])"
    by (simp add: perception_calls_def)
  show "perception_calls_ok S tab
          (perception_calls S tab @ [CallModel step (screenshot_at E S step \<noteq> None)])"
    by (rule ok_append) (simp, simp add: perception_calls_ok_def)
qed

lemma grows_run_step:
  "grows S tab w (snd (run_step B E S tab (collectOptions S) step w))"
  using grows_before_model[of S tab w B E step] grows_after_model[of S tab w B E step]
    grows_trans[OF grows_after_model grows_act_on]
  by (auto simp: run_step_eq grows_log split: sum.splits)

lemma running_run_step [simp]:
  "running (rs (snd (run_step B E S tab opts step w))) = running (rs w)"
  by (simp add: run_step_eq split: sum.splits)

text \<open>
  Every step starts with its perception; when the state request succeeds, the model
  request follows, whatever has become of the screenshot.
\<close>

lemma run_step_starts:
  "\<exists>rest. calls (trace (snd (run_step B E S tab opts step w)))
            = calls (trace w) @ CollectState tab opts
                # (if fastMode S then [] else [CaptureScreenshot tab]) @ rest
          \<and> (\<forall>state. collect_result E step = Inr state \<longrightarrow>
                (\<exists>rest'. rest = CallModel step (screenshot_at E S step \<noteq> None) # rest'))"
proof (cases "collect_result E step")
  case (Inl msg)
  then show ?thesis
    by (intro exI[of _ "[]"]) (simp add: run_step_eq)
next
  case (Inr state)
  define wm where "wm = after_model B E S tab opts step w"
  have "\<exists>cs. calls (trace (snd (run_step B E S tab opts step w))) = calls (trace wm) @ cs"
  proof (cases "model_result E step")
    case (Inl msg)
    with Inr show ?thesis by (simp add: run_step_eq wm_def)
  next
    case parts: (Inr parts)
    show ?thesis
    proof (cases "parseAgentResponse B parts")
      case (Inl msg)
      with Inr parts show ?thesis by (simp add: run_step_eq wm_def)
    next
      case d: (Inr d)
      have "run_step B E S tab opts step w = act_on B E S tab step d wm"
        using Inr parts d by (simp add: run_step_eq wm_def)
      then show ?thesis
        using grows_calls[OF grows_act_on[of S tab wm B E step d]] by simp
    qed
  qed
  then obtain cs where "calls (trace (snd (run_step B E S tab opts step w))) = calls (trace wm) @ cs"
    by blast
  then show ?thesis
    using Inr
    by (intro exI[of _ "CallModel step (screenshot_at E S step \<noteq> None) # cs"]) (simp add: wm_def)
qed

lemma run_steps_snd_fst:
  "run_steps B E S tab opts (step # later) w =
     (if stopRequested (rs w) then (Returned, w)
      else if fst (run_step B E S tab opts step w) = (Returned, True)
      then run_steps B E S tab opts later (snd (run_step B E S tab opts step w))
      else (fst (fst (run_step B E S tab opts step w)), snd (run_step B E S tab opts step w)))"
  by (auto split: prod.splits completion.splits bool.splits)

lemma grows_run_steps:
  "grows S tab w (snd (run_steps B E S tab (collectOptions S) steps w))"
proof (induction steps arbitrary: w)
  case Nil
  show ?case by simp
next
  case (Cons step later)
  show ?case
    unfolding run_steps_snd_fst
    using grows_run_step[of S tab w B E step]
      grows_trans[OF grows_run_step Cons.IH, of w B E step]
    by simp
qed

lemma running_run_steps [simp]:
  "running (rs (snd (run_steps B E S tab opts steps w))) = running (rs w)"
proof (induction steps arbitrary: w)
  case Nil
  show ?case by simp
next
  case (Cons step later)
  show ?case unfolding run_steps_snd_fst by (simp add: Cons.IH)
qed

lemma run_steps_starts:
  assumes "\<not> stopRequested (rs w)"
  shows "\<exists>rest. calls (trace (snd (run_steps B E S tab (collectOptions S) (step # later) w)))
            = calls (trace w) @ CollectState tab (collectOptions S)
                # (if fastMode S then [] else [CaptureScreenshot tab]) @ rest
          \<and> (\<forall>state. collect_result E step = Inr state \<longrightarrow>
                (\<exists>rest'. rest = CallModel step (screenshot_at E S step \<noteq> None) # rest'))"
proof -
  define w1 where "w1 = snd (run_step B E S tab (collectOptions S) step w)"
  have "\<exists>rest. calls (trace w1) = calls (trace w) @ CollectState tab (collectOptions S)
                # (if fastMode S then [] else [CaptureScreenshot tab]) @ rest
          \<and> (\<forall>state. collect_result E step = Inr state \<longrightarrow>
                (\<exists>rest'. rest = CallModel step (screenshot_at E S step \<noteq> None) # rest'))"
    unfolding w1_def by (rule run_step_starts)
  then obtain rest where rest:
    "calls (trace w1) = calls (trace w) @ CollectState tab (collectOptions S)
                # (if fastMode S then [] else [CaptureScreenshot tab]) @ rest"
    "\<forall>state. collect_result E step = Inr state \<longrightarrow>
                (\<exists>rest'. rest = CallModel step (screenshot_at E S step \<noteq> None) # rest')"
    by (elim exE conjE)
  obtain cs where cs:
    "calls (trace (snd (run_steps B E S tab (collectOptions S) later w1))) = calls (trace w1) @ cs"
    using grows_calls[OF grows_run_steps] by blast
  have "snd (run_steps B E S tab (collectOptions S) (step # later) w) = w1
        \<or> snd (run_steps B E S tab (collectOptions S) (step # later) w)
            = snd (run_steps B E S tab (collectOptions S) later w1)"
    unfolding run_steps_snd_fst using assms by (simp add: w1_def)
  then show ?thesis
  proof
    assume "snd (run_steps B E S tab (collectOptions S) (step # later) w) = w1"
    with rest show ?thesis by (intro exI[of _ rest]) simp
  next
    assume "snd (run_steps B E S tab (collectOptions S) (step # later) w)
            = snd (run_steps B E S tab (collectOptions S) later w1)"
    with rest cs show ?thesis by (intro exI[of _ "rest @ cs"]) auto
  qed
qed

lemma ensureContentScript_fields [simp]:
  "running (rs (snd (ensureContentScript B E tab w))) = running (rs w)"
  "calls (trace (snd (ensureContentScript B E tab w))) = calls (trace w) @ [InjectScript tab]"
  "fst (ensureContentScript B E tab w) = (inject_result E = None)"
  by (simp_all add: ensureContentScript_def Let_def split: option.splits)

lemma runAgent_eq:
  "runAgent B E tab instruction w =
     (if running (rs w) then (Returned, log B ''Agent already running.'' w)
      else case settings_result E of
             Inl msg \<Rightarrow> (Rejected msg, suspend B E AtSettings w)
           | Inr S \<Rightarrow>
               if apiKey S = []
               then (Returned,
                     log B ''Missing API key. Add it in the popup or generate config.js.''
                       (suspend B E AtSettings w))
               else if inject_result E \<noteq> None
               then (Returned, (started B E tab w)\<lparr>rs := (rs (started B E tab w))\<lparr>running := False\<rparr>\<rparr>)
               else case fst (run_steps B E S tab (collectOptions S) [1..<Suc (maxSteps S)]
                                (started B E tab w)) of
                      Returned \<Rightarrow>
                        (Returned,
                         finish B (snd (run_steps B E S tab (collectOptions S)
                                          [1..<Suc (maxSteps S)] (started B E tab w))))
                    | Rejected m \<Rightarrow>
                        (Rejected m,
                         snd (run_steps B E S tab (collectOptions S) [1..<Suc (maxSteps S)]
                                (started B E tab w))))"
  unfolding runAgent_def started_def Let_def
  by (auto split: sum.splits prod.splits completion.splits option.splits
           simp: ensureContentScript_def Let_def simp del: upt_Suc)

lemma started_fields [simp]:
  "running (rs (started B E tab w))"
  "calls (trace (started B E tab w)) = calls (trace w) @ [InjectScript tab]"
  "stopRequested (rs (started B E tab w)) = (POPUP_STOP \<in> set (incoming E AtInject))"
  by (simp_all add: started_def Let_def ensureContentScript_def split: option.splits)

lemma finish_fields [simp]:
  "running (rs (finish B w)) = False"
  "stopRequested (rs (finish B w)) = False"
  "stoppedAt (rs (finish B w)) = Some (now w)"
  "startedAt (rs (finish B w)) = startedAt (rs w)"
  "calls (trace (finish B w)) = calls (trace w)"
  "trace (finish B w) =
     trace w @ [Sent (AGENT_STATUS False (startedAt (rs w)) (Some (now w)) (logs (rs w))),
                Sent (AGENT_LOG (log_line B (now w) ''Agent stopped.''))]"
  by (simp_all add: finish_def)

lemma grows_runAgent:
  assumes "settings_result E = Inr S"
  shows "grows S tab w (snd (runAgent B E tab instruction w))"
proof -
  have s: "grows S tab w (started B E tab w)"
    by (rule growsI[where cs="[InjectScript tab]"]) (simp_all add: perception_calls_ok_def)
  have l: "grows S tab w (snd (run_steps B E S tab (collectOptions S) [1..<Suc (maxSteps S)]
                                (started B E tab w)))"
    by (rule grows_trans[OF s grows_run_steps])
  have f: "grows S tab w (finish B (snd (run_steps B E S tab (collectOptions S) [1..<Suc (maxSteps S)]
                                (started B E tab w))))"
    by (rule grows_trans[OF l]) (rule grows_same, simp)
  have i: "grows S tab w ((started B E tab w)\<lparr>rs := (rs (started B E tab w))\<lparr>running := False\<rparr>\<rparr>)"
    by (rule grows_trans[OF s]) (rule grows_same, simp)
  have a: "grows S tab w (suspend B E AtSettings w)"
    by (rule grows_same) simp
  show ?thesis
    unfolding runAgent_eq using assms s l f i a grows_log[OF a] grows_log[OF grows_refl]
    by (simp split: completion.splits del: upt_Suc)
qed

lemma after_steps_run_steps:
  "after_steps B E S tab opts earlier w0 = Some w
     \<Longrightarrow> run_steps B E S tab opts (earlier @ rest) w0 = run_steps B E S tab opts rest w"
proof (induction earlier arbitrary: w0)
  case Nil
  then show ?case by simp
next
  case (Cons step earlier)
  from Cons.prems have ns: "\<not> stopRequested (rs w0)"
    by (simp split: if_splits)
  from Cons.prems ns obtain w1 where
    w1: "run_step B E S tab opts step w0 = ((Returned, True), w1)"
      "after_steps B E S tab opts earlier w1 = Some w"
    by (auto split: prod.splits completion.splits bool.splits)
  from Cons.IH[OF w1(2)] ns w1(1) show ?case by simp
qed

section \<open>A start while running\<close>

text \<open>
  Claim C6. When \<open>runAgent\<close> is invoked while \<open>running\<close> is true, the call returns
  at once: the run state keeps \<open>running\<close>, \<open>startedAt\<close>, \<open>stoppedAt\<close> and the tab,
  exactly one line \<open>Agent already running.\<close> is appended to the log and pushed to
  the popup, and nothing else happens: no call is issued and no second loop starts. The
  \<open>POPUP_START\<close> listener, which is how the popup invokes it, does the same.
\<close>

theorem start_while_running_is_noop:
  "running (rs w) \<Longrightarrow>
     runAgent B E tab instruction w =
       (Returned,
        w\<lparr>rs := (rs w)\<lparr>logs := logs (rs w) @ [log_line B (now w) ''Agent already running.'']\<rparr>,
          trace := trace w @ [Sent (AGENT_LOG (log_line B (now w) ''Agent already running.''))]\<rparr>)
     \<and> handle B (POPUP_START tab instruction) w = snd (runAgent B E tab instruction w)"
  by (simp add: runAgent_def log_def emit_def Let_def)

text \<open>The theorem at a second start, five time units into a run on tab 1.\<close>

theorem start_while_running_is_noop_witness:
  "running (rs running_world)
   \<and> runAgent example_builtins example_env 2 ''again'' running_world =
       (Returned,
        \<lparr> rs = \<lparr> running = True, stopRequested = False, tabId = Some 1,
                 logs = [''[5] Agent already running.''], startedAt = Some 3,
                 stoppedAt = None \<rparr>,
          trace = [Sent (AGENT_LOG ''[5] Agent already running.'')], now = 5 \<rparr>)"
proof -
  have r: "running (rs running_world)"
    by (simp add: running_world_def idle_state_def)
  have l: "log_line example_builtins (now running_world) ''Agent already running.''
             = ''[5] Agent already running.''"
    by code_simp
  from start_while_running_is_noop [OF r, of example_builtins example_env 2 "''again''"]
  show ?thesis
    unfolding l using r by (simp add: running_world_def idle_state_def)
qed

section \<open>Perception follows the mode\<close>



section \<open>The step budget\<close>

lemma single_action_stepD:
  assumes "single_action_step B E step"
  obtains state parts d a where
    "collect_result E step = Inr state" "model_result E step = Inr parts"
    "parseAgentResponse B parts = Inr d" "decision_at B E step = Some d"
    "\<not> nullish d" "plan_prints d" "\<not> truthy (field d ''done'')" "actions_of d = [a]"
    "dispatchable a"
proof -
  from assms obtain state where c: "collect_result E step = Inr state"
    by (auto simp: single_action_step_def split: sum.splits)
  from assms c obtain d where d: "decision_at B E step = Some d"
    "\<not> nullish d" "plan_prints d" "\<not> truthy (field d ''done'')"
    "(case actions_of d of [a] \<Rightarrow> dispatchable a | _ \<Rightarrow> False)"
    by (auto simp: single_action_step_def split: option.splits)
  from d(1) obtain parts where p: "model_result E step = Inr parts"
    "parseAgentResponse B parts = Inr d"
    by (auto simp: decision_at_def split: sum.splits)
  from d(5) obtain a where a: "actions_of d = [a]" "dispatchable a"
    by (auto split: list.splits)
  from c p d a that show thesis by blast
qed

lemma run_step_single:
  assumes "\<not> stopRequested (rs w)" "\<forall>pt. POPUP_STOP \<notin> set (incoming E pt)"
    "single_action_step B E step"
  shows "fst (run_step B E S tab (collectOptions S) step w) = (Returned, True)"
    and "\<not> stopRequested (rs (snd (run_step B E S tab (collectOptions S) step w)))"
    and "calls (trace (snd (run_step B E S tab (collectOptions S) step w)))
           = calls (trace w) @ single_action_calls B E S tab step"
proof -
  from assms(3) obtain state parts d a where h:
    "collect_result E step = Inr state" "model_result E step = Inr parts"
    "parseAgentResponse B parts = Inr d" "decision_at B E step = Some d"
    "\<not> nullish d" "plan_prints d" "\<not> truthy (field d ''done'')" "actions_of d = [a]"
    "dispatchable a"
    by (rule single_action_stepD)
  define w1 where "w1 = after_plan B d (after_model B E S tab (collectOptions S) step w)"
  define w2 where "w2 = perform_one B E S tab step 0 a (string_of B (field a ''type'')) w1"
  have s1: "\<not> stopRequested (rs w1)"
    using after_model_no_stop[OF assms(1), of E step B S tab "collectOptions S"] assms(2)
    by (simp add: w1_def)
  have r: "run_step B E S tab (collectOptions S) step w
             = act_on B E S tab step d (after_model B E S tab (collectOptions S) step w)"
    by (simp add: run_step_eq h)
  have ra: "run_actions B E S tab step 0 [a] w1 = (Returned, w2)"
    unfolding run_actions_no_stop[OF s1 h(9)] by (simp add: w2_def)
  show "fst (run_step B E S tab (collectOptions S) step w) = (Returned, True)"
    unfolding r using h(5-8) ra by (simp add: act_on_fst w1_def[symmetric])
  have sn: "snd (run_step B E S tab (collectOptions S) step w) = w2"
    unfolding r using h(5-8) ra by (simp add: act_on_snd w1_def[symmetric])
  show "\<not> stopRequested (rs (snd (run_step B E S tab (collectOptions S) step w)))"
    unfolding sn using s1 assms(2) by (simp add: w2_def)
  show "calls (trace (snd (run_step B E S tab (collectOptions S) step w)))
           = calls (trace w) @ single_action_calls B E S tab step"
    unfolding sn by (simp add: w2_def w1_def single_action_calls_def perception_calls_def h)
qed

lemma run_steps_single:
  assumes "\<forall>pt. POPUP_STOP \<notin> set (incoming E pt)"
  shows "\<not> stopRequested (rs w) \<Longrightarrow> \<forall>step \<in> set steps. single_action_step B E step \<Longrightarrow>
     fst (run_steps B E S tab (collectOptions S) steps w) = Returned
     \<and> \<not> stopRequested (rs (snd (run_steps B E S tab (collectOptions S) steps w)))
     \<and> calls (trace (snd (run_steps B E S tab (collectOptions S) steps w)))
         = calls (trace w) @ concat (map (single_action_calls B E S tab) steps)"
proof (induction steps arbitrary: w)
  case Nil
  then show ?case by simp
next
  case (Cons step later)
  have st: "single_action_step B E step" using Cons.prems(2) by simp
  note one = run_step_single[OF Cons.prems(1) assms st, of S tab]
  have "fst (run_steps B E S tab (collectOptions S) later
               (snd (run_step B E S tab (collectOptions S) step w))) = Returned
     \<and> \<not> stopRequested (rs (snd (run_steps B E S tab (collectOptions S) later
               (snd (run_step B E S tab (collectOptions S) step w)))))
     \<and> calls (trace (snd (run_steps B E S tab (collectOptions S) later
               (snd (run_step B E S tab (collectOptions S) step w)))))
         = calls (trace (snd (run_step B E S tab (collectOptions S) step w)))
           @ concat (map (single_action_calls B E S tab) later)"
    using Cons.prems(2) by (intro Cons.IH one(2)) simp
  then show ?case
    unfolding run_steps_snd_fst using Cons.prems(1) one(1,3) by simp
qed

lemma count_concat:
  "(\<And>x. x \<in> set xs \<Longrightarrow> length (filter P (f x)) = 1)
     \<Longrightarrow> length (filter P (concat (map f xs))) = length xs"
  by (induction xs) simp_all

lemma single_action_calls_count:
  assumes "single_action_step B E step"
  shows "length (filter is_collect (single_action_calls B E S tab step)) = 1"
    and "length (filter is_model_call (single_action_calls B E S tab step)) = 1"
    and "length (filter is_perform (single_action_calls B E S tab step)) = 1"
proof -
  from assms obtain d a where "decision_at B E step = Some d" "actions_of d = [a]"
    by (rule single_action_stepD)
  then show "length (filter is_collect (single_action_calls B E S tab step)) = 1"
    and "length (filter is_model_call (single_action_calls B E S tab step)) = 1"
    and "length (filter is_perform (single_action_calls B E S tab step)) = 1"
    by (simp_all add: single_action_calls_def perception_calls_def action_calls_def)
qed

text \<open>
  Claim C5. Let the invocation of \<open>runAgent\<close> be the only one. If the run starts with
  \<open>maxSteps = N\<close>, the injection succeeds, no stop command ever arrives, and every
  step from 1 to N has a state and a decision with a plan that can be logged, a falsy
  \<open>done\<close> and exactly one action, which is not \<open>null\<close> and whose type can be
  converted to a string, then \<open>runAgent\<close> returns, its calls are the injection
  followed by the calls of the steps 1 to N in order, each one perception, one model
  request, one action and its delay, so there are exactly N perceptions, N model
  requests and N actions, and the run is idle at the end.
\<close>

theorem exact_step_budget:
  assumes "\<not> running (rs w)" and "only_invocation E w"
    and "settings_result E = Inr S" and "apiKey S \<noteq> []"
    and "inject_result E = None"
    and "\<forall>pt. POPUP_STOP \<notin> set (incoming E pt)"
    and "\<forall>step \<in> {1..maxSteps S}. single_action_step B E step"
  shows "\<exists>w'. runAgent B E tab instruction w = (Returned, w')
           \<and> calls (trace w')
               = calls (trace w) @ InjectScript tab
                   # concat (map (single_action_calls B E S tab) [1..<Suc (maxSteps S)])
           \<and> iterations (concat (map (single_action_calls B E S tab) [1..<Suc (maxSteps S)]))
               = (maxSteps S, maxSteps S, maxSteps S)
           \<and> \<not> running (rs w') \<and> \<not> stopRequested (rs w') \<and> stoppedAt (rs w') \<noteq> None"
proof -
  define w0 where "w0 = started B E tab w"
  define steps where "steps = [1..<Suc (maxSteps S)]"
  have all: "\<forall>step \<in> set steps. single_action_step B E step"
    using assms(7) by (auto simp: steps_def)
  have s0: "\<not> stopRequested (rs w0)"
    using assms(6) by (simp add: w0_def)
  from run_steps_single[OF assms(6) s0 all, of S tab]
  have loop: "fst (run_steps B E S tab (collectOptions S) steps w0) = Returned"
    "calls (trace (snd (run_steps B E S tab (collectOptions S) steps w0)))
         = calls (trace w0) @ concat (map (single_action_calls B E S tab) steps)"
    by simp_all
  have run: "runAgent B E tab instruction w
               = (Returned, finish B (snd (run_steps B E S tab (collectOptions S) steps w0)))"
    using assms(1,3,4,5) loop(1) by (simp add: runAgent_eq steps_def w0_def del: upt_Suc)
  have it: "iterations (concat (map (single_action_calls B E S tab) steps))
              = (length steps, length steps, length steps)"
    unfolding iterations_def
    using all by (simp add: count_concat single_action_calls_count)
  show ?thesis
    unfolding run
    using loop(2) it by (simp add: w0_def steps_def del: upt_Suc)
qed

text \<open>The theorem at the example environment, whose budget is two steps.\<close>

theorem exact_step_budget_witness:
  "\<not> running (rs idle_world) \<and> only_invocation example_env idle_world
   \<and> settings_result example_env = Inr example_settings
   \<and> apiKey example_settings \<noteq> [] \<and> inject_result example_env = None
   \<and> (\<forall>pt. POPUP_STOP \<notin> set (incoming example_env pt))
   \<and> single_action_step example_builtins example_env 1
   \<and> single_action_step example_builtins example_env 2
   \<and> maxSteps example_settings = 2
   \<and> (\<exists>w'. runAgent example_builtins example_env 1 ''click login'' idle_world = (Returned, w')
         \<and> calls (trace w')
             = [InjectScript 1,
                CollectState 1 (Obj [(''maxElements'', Num (Fin 60)), (''maxText'', Num (Fin 0))]),
                CallModel 1 False,
                PerformAction 1 (Obj [(''type'', Str ''click''), (''selector'', Str ''#login'')]),
                Sleep 0,
                CollectState 1 (Obj [(''maxElements'', Num (Fin 60)), (''maxText'', Num (Fin 0))]),
                CallModel 2 False,
                PerformAction 1 (Obj [(''type'', Str ''click''), (''selector'', Str ''#login'')]),
                Sleep 0]
         \<and> \<not> running (rs w') \<and> \<not> stopRequested (rs w') \<and> stoppedAt (rs w') \<noteq> None)"
proof -
  have h: "\<not> running (rs idle_world)" "only_invocation example_env idle_world"
    "settings_result example_env = Inr example_settings"
    "apiKey example_settings \<noteq> []" "inject_result example_env = None"
    "\<forall>pt. POPUP_STOP \<notin> set (incoming example_env pt)" "maxSteps example_settings = 2"
    by (simp_all add: idle_world_def idle_state_def example_env_def example_settings_def
          only_invocation_def)
  have s: "single_action_step example_builtins example_env 1"
    "single_action_step example_builtins example_env 2"
    by code_simp+
  have a: "\<forall>step \<in> {1..maxSteps example_settings}. single_action_step example_builtins example_env step"
  proof
    fix step assume "step \<in> {1..maxSteps example_settings}"
    then have "step = 1 \<or> step = 2" using h(7) by auto
    with s show "single_action_step example_builtins example_env step" by auto
  qed
  have c: "calls (trace idle_world) @ InjectScript 1
             # concat (map (single_action_calls example_builtins example_env example_settings 1)
                        [1..<Suc (maxSteps example_settings)])
           = [InjectScript 1,
                CollectState 1 (Obj [(''maxElements'', Num (Fin 60)), (''maxText'', Num (Fin 0))]),
                CallModel 1 False,
                PerformAction 1 (Obj [(''type'', Str ''click''), (''selector'', Str ''#login'')]),
                Sleep 0,
                CollectState 1 (Obj [(''maxElements'', Num (Fin 60)), (''maxText'', Num (Fin 0))]),
                CallModel 2 False,
                PerformAction 1 (Obj [(''type'', Str ''click''), (''selector'', Str ''#login'')]),
                Sleep 0]"
    by code_simp
  from exact_step_budget [OF h(1-6) a, of 1 "''click login''"]
  obtain w' where w': "runAgent example_builtins example_env 1 ''click login'' idle_world = (Returned, w')"
    "calls (trace w') = calls (trace idle_world) @ InjectScript 1
             # concat (map (single_action_calls example_builtins example_env example_settings 1)
                        [1..<Suc (maxSteps example_settings)])"
    "\<not> running (rs w')" "\<not> stopRequested (rs w')" "stoppedAt (rs w') \<noteq> None"
    by blast
  from w' c h s show ?thesis by simp
qed

section \<open>Stop between actions\<close>

text \<open>The actions before the stop: none is skipped, and the flag is still clear after them.\<close>

lemma run_actions_prefix:
  "\<not> stopRequested (rs w) \<Longrightarrow> \<forall>a \<in> set pre. dispatchable a \<Longrightarrow>
   \<forall>j < length pre. POPUP_STOP \<notin> set (incoming E (AtPerform step (k + j)))
                    \<and> POPUP_STOP \<notin> set (incoming E (AtSleep step (k + j))) \<Longrightarrow>
   \<exists>w1. run_actions B E S tab step k (pre @ rest) w
          = run_actions B E S tab step (k + length pre) rest w1
        \<and> \<not> stopRequested (rs w1) \<and> trace_extends w w1
        \<and> calls (trace w1) = calls (trace w) @ concat (map (action_calls S tab) pre)"
proof (induction pre arbitrary: k w)
  case Nil
  then show ?case by (intro exI[of _ w]) simp
next
  case (Cons a pre)
  define w' where "w' = perform_one B E S tab step k a (string_of B (field a ''type'')) w"
  have a: "dispatchable a" using Cons.prems(2) by simp
  have here: "POPUP_STOP \<notin> set (incoming E (AtPerform step k))"
    "POPUP_STOP \<notin> set (incoming E (AtSleep step k))"
    using Cons.prems(3)[rule_format, of 0] by simp_all
  have ns: "\<not> stopRequested (rs w')"
    using Cons.prems(1) here by (simp add: w'_def)
  have later: "\<forall>j < length pre. POPUP_STOP \<notin> set (incoming E (AtPerform step (Suc k + j)))
                    \<and> POPUP_STOP \<notin> set (incoming E (AtSleep step (Suc k + j)))"
    using Cons.prems(3) by (auto dest: spec[of _ "Suc _"])
  from Cons.IH[OF ns _ later, of ] Cons.prems(2)
  obtain w1 where w1: "run_actions B E S tab step (Suc k) (pre @ rest) w'
          = run_actions B E S tab step (Suc k + length pre) rest w1"
    "\<not> stopRequested (rs w1)" "trace_extends w' w1"
    "calls (trace w1) = calls (trace w') @ concat (map (action_calls S tab) pre)"
    by auto
  have "run_actions B E S tab step k ((a # pre) @ rest) w
          = run_actions B E S tab step (k + length (a # pre)) rest w1"
    using run_actions_no_stop[OF Cons.prems(1) a, of B E S tab step k "pre @ rest"] w1(1)
    by (simp add: w'_def)
  moreover have "trace_extends w w1"
    using trace_extends_trans[OF trace_extends_perform_one w1(3)[unfolded w'_def]] .
  moreover have "calls (trace w1) = calls (trace w) @ concat (map (action_calls S tab) (a # pre))"
    using w1(4) by (simp add: w'_def)
  ultimately show ?case using w1(2) by blast
qed



section \<open>Unknown action kinds\<close>

lemma performAction_unknown:
  assumes "field action ''type'' \<notin> {Str ''click'', Str ''type'', Str ''scroll'', Str ''wait'',
                                       Str ''key'', Str ''finish''}"
  shows "performAction B qs throws pg action = Inr ([], Fail ''Missing action type'')
         \<or> performAction B qs throws pg action = Inr ([], Fail ''Target not found'')
         \<or> (\<exists>p. performAction B qs throws pg action
                   = Inr ([ScrollIntoView p],
                          Fail (''Unsupported action: '' @ string_of B (field action ''type''))))
         \<or> (\<exists>ex. performAction B qs throws pg action = Inl (ex, []))
         \<or> (\<exists>ex p. performAction B qs throws pg action = Inl (ex, [ScrollIntoView p]))"
proof (cases "nullish action")
  case True
  then show ?thesis by (simp add: performAction_def)
next
  case False
  show ?thesis
  proof (cases "truthy (field action ''type'')")
    case no: False
    then show ?thesis using False by (simp add: performAction_def)
  next
    case yes: True
    show ?thesis
    proof (cases "resolveTarget B qs pg action")
      case (Inl ex)
      then show ?thesis using False yes assms by (simp add: performAction_def)
    next
      case (Inr r)
      show ?thesis
      proof (cases r)
        case None
        with Inr False yes assms show ?thesis by (simp add: performAction_def)
      next
        case (Some p)
        show ?thesis
        proof (cases "throws (ScrollIntoView p)")
          case (Some ex)
          with Inr \<open>r = Some p\<close> False yes assms show ?thesis
            by (simp add: performAction_def)
        next
          case None
          with Inr \<open>r = Some p\<close> False yes assms show ?thesis
            by (cases "converts (field action ''type'')")
               (simp_all add: performAction_def ToString_def Let_def)
        qed
      qed
    qed
  qed
qed

text \<open>
  Claim C2, as the code has it. \<open>parseAgentResponse\<close> accepts whatever
  \<open>JSON.parse\<close> accepts: it looks at no action and at no \<open>type\<close>. Within a run, an
  action that is not \<open>null\<close> and whose type can be converted to a string is logged
  and dispatched to the tab whatever its \<open>type\<close>, the delay follows, and the loop goes
  on to the next action; a type that cannot be converted to a string ends
  \<open>runAgent\<close> with an uncaught \<open>TypeError\<close> before the action is dispatched. For a
  \<open>type\<close> outside \<open>click\<close>, \<open>type\<close>, \<open>scroll\<close>, \<open>wait\<close>, \<open>key\<close>, \<open>finish\<close>
  the executor clicks nothing, types nothing and presses no key; at most it scrolls the
  target into view. It replies with the failure \<open>Missing action type\<close>,
  \<open>Target not found\<close> or, after the scroll, \<open>Unsupported action\<close> with the type, or it
  throws; a reply with a failure is logged as \<open>Action failed\<close>.
\<close>

theorem unknown_action_is_dispatched:
  "(extractResponseText parts \<noteq> [] \<and> JSON_parse B (extractResponseText parts) = Inr d \<longrightarrow>
      parseAgentResponse B parts = Inr d)
   \<and> (running (rs w) \<and> \<not> stopRequested (rs w) \<and> \<not> nullish action
        \<and> converts (field action ''type'') \<longrightarrow>
        run_actions B E S tab step k (action # rest) w
          = run_actions B E S tab step (Suc k) rest
              (perform_one B E S tab step k action (string_of B (field action ''type'')) w)
        \<and> calls (trace (perform_one B E S tab step k action
                          (string_of B (field action ''type'')) w))
            = calls (trace w) @ [PerformAction tab action, Sleep (stepDelayMs S)])
   \<and> (\<not> stopRequested (rs w) \<and> \<not> nullish action \<and> \<not> converts (field action ''type'') \<longrightarrow>
        run_actions B E S tab step k (action # rest) w = (Rejected ''TypeError'', w))
   \<and> (field action ''type'' \<notin> {Str ''click'', Str ''type'', Str ''scroll'', Str ''wait'',
                                   Str ''key'', Str ''finish''} \<longrightarrow>
        performAction B qs throws pg action = Inr ([], Fail ''Missing action type'')
        \<or> performAction B qs throws pg action = Inr ([], Fail ''Target not found'')
        \<or> (\<exists>p. performAction B qs throws pg action
                  = Inr ([ScrollIntoView p],
                         Fail (''Unsupported action: '' @ string_of B (field action ''type''))))
        \<or> (\<exists>ex. performAction B qs throws pg action = Inl (ex, []))
        \<or> (\<exists>ex p. performAction B qs throws pg action = Inl (ex, [ScrollIntoView p])))
   \<and> (err \<noteq> [] \<longrightarrow> outcome_entry (Inr (Some (Fail err))) = ''Action failed: '' @ err)"
proof (intro conjI impI)
  assume "extractResponseText parts \<noteq> [] \<and> JSON_parse B (extractResponseText parts) = Inr d"
  then show "parseAgentResponse B parts = Inr d"
    by (simp add: parseAgentResponse_def)
next
  assume "running (rs w) \<and> \<not> stopRequested (rs w) \<and> \<not> nullish action
        \<and> converts (field action ''type'')"
  then show "run_actions B E S tab step k (action # rest) w
          = run_actions B E S tab step (Suc k) rest
              (perform_one B E S tab step k action (string_of B (field action ''type'')) w)"
    by (intro run_actions_no_stop) (simp_all add: dispatchable_def)
next
  show "calls (trace (perform_one B E S tab step k action
                          (string_of B (field action ''type'')) w))
            = calls (trace w) @ [PerformAction tab action, Sleep (stepDelayMs S)]"
    by (simp add: action_calls_def)
next
  assume "\<not> stopRequested (rs w) \<and> \<not> nullish action \<and> \<not> converts (field action ''type'')"
  then show "run_actions B E S tab step k (action # rest) w = (Rejected ''TypeError'', w)"
    by (intro run_actions_undispatchable) (simp_all add: dispatchable_def)
next
  assume "field action ''type'' \<notin> {Str ''click'', Str ''type'', Str ''scroll'', Str ''wait'',
                                   Str ''key'', Str ''finish''}"
  then show "performAction B qs throws pg action = Inr ([], Fail ''Missing action type'')
        \<or> performAction B qs throws pg action = Inr ([], Fail ''Target not found'')
        \<or> (\<exists>p. performAction B qs throws pg action
                  = Inr ([ScrollIntoView p],
                         Fail (''Unsupported action: '' @ string_of B (field action ''type''))))
        \<or> (\<exists>ex. performAction B qs throws pg action = Inl (ex, []))
        \<or> (\<exists>ex p. performAction B qs throws pg action = Inl (ex, [ScrollIntoView p]))"
    by (rule performAction_unknown)
next
  assume "err \<noteq> []"
  then show "outcome_entry (Inr (Some (Fail err))) = ''Action failed: '' @ err"
    by (simp add: outcome_entry_def)
qed

text \<open>
  The theorem at the reply with one \<open>hover\<close> action: the reply is accepted, the action
  is dispatched from the running example world as from any other, and the executor
  answers that the action is unsupported. And at an action whose type is the object
  \<open>{toString: 1}\<close>, which ends the invocation with a \<open>TypeError\<close>.
\<close>

theorem unknown_action_is_dispatched_witness:
  "extractResponseText [Some hover_reply] \<noteq> []
   \<and> JSON_parse example_builtins (extractResponseText [Some hover_reply]) = Inr hover_decision
   \<and> parseAgentResponse example_builtins [Some hover_reply] = Inr hover_decision
   \<and> running (rs running_world) \<and> \<not> stopRequested (rs running_world) \<and> \<not> nullish hover_action
   \<and> converts (field hover_action ''type'')
   \<and> calls (trace (perform_one example_builtins hover_env example_settings 1 1 0 hover_action
                      ''hover'' running_world))
       = [PerformAction 1 hover_action, Sleep 0]
   \<and> field hover_action ''type'' = Str ''hover''
   \<and> performAction example_builtins example_query example_throws example_page hover_action
       = Inr ([ScrollIntoView [1, 2]], Fail ''Unsupported action: hover'')
   \<and> outcome_entry (Inr (Some (Fail ''Unsupported action: hover'')))
       = ''Action failed: Unsupported action: hover''
   \<and> \<not> converts (field (Obj [(''type'', Obj [(''toString'', Num (Fin 1))])]) ''type'')
   \<and> run_actions example_builtins hover_env example_settings 1 1 0
        [Obj [(''type'', Obj [(''toString'', Num (Fin 1))])]] running_world
       = (Rejected ''TypeError'', running_world)"
proof -
  have h: "extractResponseText [Some hover_reply] \<noteq> []"
    "JSON_parse example_builtins (extractResponseText [Some hover_reply]) = Inr hover_decision"
    "running (rs running_world)" "\<not> stopRequested (rs running_world)" "\<not> nullish hover_action"
    "converts (field hover_action ''type'')"
    "field hover_action ''type'' = Str ''hover''"
    "field hover_action ''type'' \<notin> {Str ''click'', Str ''type'', Str ''scroll'', Str ''wait'',
                                       Str ''key'', Str ''finish''}"
    "''Unsupported action: hover'' \<noteq> []"
    by code_simp+
  have p: "performAction example_builtins example_query example_throws example_page hover_action
       = Inr ([ScrollIntoView [1, 2]], Fail ''Unsupported action: hover'')"
    by code_simp
  have c: "calls (trace running_world) = []" "stepDelayMs example_settings = 0"
    "string_of example_builtins (field hover_action ''type'') = ''hover''"
    by (simp_all add: running_world_def example_settings_def hover_action_def)
  have u: "\<not> nullish (Obj [(''type'', Obj [(''toString'', Num (Fin 1))])])"
    "\<not> converts (field (Obj [(''type'', Obj [(''toString'', Num (Fin 1))])]) ''type'')"
    by (simp_all add: nullish_def)
  note inst = unknown_action_is_dispatched [of "[Some hover_reply]" example_builtins hover_decision
      running_world hover_action hover_env example_settings 1 1 0 "[]" example_query example_throws
      example_page "''Unsupported action: hover''"]
  from inst h(1,2) have 1: "parseAgentResponse example_builtins [Some hover_reply] = Inr hover_decision"
    by blast
  from inst h(3,4,5,6) have "calls (trace (perform_one example_builtins hover_env example_settings 1 1 0
                                        hover_action
                                        (string_of example_builtins (field hover_action ''type''))
                                        running_world))
       = calls (trace running_world) @ [PerformAction 1 hover_action, Sleep (stepDelayMs example_settings)]"
    by blast
  then have 2: "calls (trace (perform_one example_builtins hover_env example_settings 1 1 0
                                        hover_action ''hover'' running_world))
       = [PerformAction 1 hover_action, Sleep 0]"
    by (simp only: c append_Nil)
  from inst h(9) have 3: "outcome_entry (Inr (Some (Fail ''Unsupported action: hover'')))
       = ''Action failed: '' @ ''Unsupported action: hover''"
    by blast
  from unknown_action_is_dispatched [of _ example_builtins _ running_world
      "Obj [(''type'', Obj [(''toString'', Num (Fin 1))])]" hover_env example_settings 1 1 0 "[]"]
    h(4) u
  have 4: "run_actions example_builtins hover_env example_settings 1 1 0
        [Obj [(''type'', Obj [(''toString'', Num (Fin 1))])]] running_world
       = (Rejected ''TypeError'', running_world)"
    by blast
  from h 1 2 3 4 p u show ?thesis by simp
qed

text \<open>
  Claim C2 as the specification states it fails at the reply with one \<open>hover\<close> action:
  the reply is parsed without an error, and in both steps of the run the action is
  dispatched to the tab; the log has no parse failure, and the run ends when its budget
  of two steps is used up.
\<close>

theorem unknown_action_counterexample:
  "parseAgentResponse example_builtins [Some hover_reply] = Inr hover_decision
   \<and> field hover_action ''type'' = Str ''hover''
   \<and> calls (trace (snd (runAgent example_builtins hover_env 1 ''click login'' idle_world)))
       = [InjectScript 1,
          CollectState 1 (Obj [(''maxElements'', Num (Fin 60)), (''maxText'', Num (Fin 0))]),
          CallModel 1 False, PerformAction 1 hover_action, Sleep 0,
          CollectState 1 (Obj [(''maxElements'', Num (Fin 60)), (''maxText'', Num (Fin 0))]),
          CallModel 2 False, PerformAction 1 hover_action, Sleep 0]
   \<and> logs (rs (snd (runAgent example_builtins hover_env 1 ''click login'' idle_world)))
       = [''[1] Injecting content script...'',
          ''[2] Collecting state (step 1/2)...'', ''[4] Action: hover'',
          ''[5] Action failed: Unsupported action: hover'',
          ''[6] Collecting state (step 2/2)...'', ''[8] Action: hover'',
          ''[9] Action failed: Unsupported action: hover'',
          ''[10] Agent stopped.'']"
  by code_simp

section \<open>The end of a run\<close>

text \<open>
  The loop is left by an uncaught exception only when a decision is \<open>null\<close>, or has a
  plan or a final summary that cannot be logged, or holds an action that cannot be
  dispatched; every other exit returns.
\<close>

lemma run_actions_rejected:
  "fst (run_actions B E S tab step k acts w) = Rejected m \<Longrightarrow> \<exists>a \<in> set acts. \<not> dispatchable a"
proof (induction acts arbitrary: k w)
  case Nil
  then show ?case by simp
next
  case (Cons a acts)
  show ?case
  proof (cases "dispatchable a")
    case False
    then show ?thesis by simp
  next
    case True
    show ?thesis
    proof (cases "stopRequested (rs w)")
      case stop: True
      from Cons.prems show ?thesis unfolding run_actions_stopped[OF stop] by simp
    next
      case False
      from Cons.prems[unfolded run_actions_no_stop[OF False True]] Cons.IH
      show ?thesis by auto
    qed
  qed
qed

lemma run_step_rejected:
  assumes "fst (fst (run_step B E S tab opts step w)) = Rejected m"
  shows "\<exists>d. decision_at B E step = Some d
           \<and> (nullish d \<or> \<not> plan_prints d \<or> (truthy (field d ''done'') \<and> \<not> done_prints d)
              \<or> (\<exists>a \<in> set (actions_of d). \<not> dispatchable a))"
proof -
  from assms obtain state parts d where
    h: "collect_result E step = Inr state" "model_result E step = Inr parts"
       "parseAgentResponse B parts = Inr d"
       "fst (fst (act_on B E S tab step d (after_model B E S tab opts step w))) = Rejected m"
    by (auto simp: run_step_eq split: sum.splits)
  have "nullish d \<or> \<not> plan_prints d \<or> (truthy (field d ''done'') \<and> \<not> done_prints d)
        \<or> (\<exists>a \<in> set (actions_of d). \<not> dispatchable a)"
    using h(4) run_actions_rejected[of B E S tab step 0 "actions_of d"]
    by (auto simp: act_on_fst split: if_splits completion.splits)
  with h show ?thesis by (auto simp: decision_at_def)
qed

lemma run_steps_rejected:
  "fst (run_steps B E S tab opts steps w) = Rejected m \<Longrightarrow>
     \<exists>step \<in> set steps. \<exists>d. decision_at B E step = Some d
        \<and> (nullish d \<or> \<not> plan_prints d \<or> (truthy (field d ''done'') \<and> \<not> done_prints d)
           \<or> (\<exists>a \<in> set (actions_of d). \<not> dispatchable a))"
proof (induction steps arbitrary: w)
  case Nil
  then show ?case by simp
next
  case (Cons step later)
  show ?case
  proof (cases "fst (run_step B E S tab opts step w) = (Returned, True)")
    case True
    with Cons.prems[unfolded run_steps_snd_fst]
    have "fst (run_steps B E S tab opts later (snd (run_step B E S tab opts step w))) = Rejected m"
      by (simp split: if_splits)
    from Cons.IH[OF this] show ?thesis by auto
  next
    case False
    with Cons.prems[unfolded run_steps_snd_fst]
    have "fst (fst (run_step B E S tab opts step w)) = Rejected m"
      by (simp split: if_splits)
    from run_step_rejected[OF this] show ?thesis by auto
  qed
qed

text \<open>
  When the run has started and the injection has succeeded, every way in which
  \<open>runAgent\<close> returns goes through the statements after the loop: the run is idle, the
  stop flag is clear, \<open>stoppedAt\<close> is stamped, and the last two events are the final
  status and the line \<open>Agent stopped.\<close>
\<close>

lemma loop_exit_finalizes:
  assumes "\<not> running (rs w)" and "settings_result E = Inr S" and "apiKey S \<noteq> []"
    and "inject_result E = None"
    and "fst (runAgent B E tab instruction w) = Returned"
  shows "\<exists>w'. snd (runAgent B E tab instruction w) = finish B w'
           \<and> \<not> running (rs (finish B w')) \<and> \<not> stopRequested (rs (finish B w'))
           \<and> stoppedAt (rs (finish B w')) = Some (now w')
           \<and> trace (finish B w')
               = trace w' @ [Sent (AGENT_STATUS False (startedAt (rs w')) (Some (now w'))
                                      (logs (rs w'))),
                             Sent (AGENT_LOG (log_line B (now w') ''Agent stopped.''))]"
  using assms by (auto simp: runAgent_eq split: completion.splits simp del: upt_Suc)

text \<open>
  When the injection fails, \<open>runAgent\<close> returns from inside the function: \<open>running\<close>
  is cleared and nothing else is done. \<open>stoppedAt\<close> stays empty, the stop flag keeps a
  stop command that arrived during the injection, and the last event is the log line of
  the failure: no status follows the one sent at the start.
\<close>

lemma injection_failure_returns_early:
  assumes "\<not> running (rs w)" and "settings_result E = Inr S" and "apiKey S \<noteq> []"
    and "inject_result E = Some msg"
  shows "\<exists>w'. runAgent B E tab instruction w = (Returned, w')
           \<and> \<not> running (rs w') \<and> stoppedAt (rs w') = None
           \<and> stopRequested (rs w') = (POPUP_STOP \<in> set (incoming E AtInject))
           \<and> (\<exists>t. last (trace w')
                    = Sent (AGENT_LOG (log_line B t (''Failed to inject content script: '' @ msg))))"
  using assms
  by (auto simp: runAgent_eq started_def ensureContentScript_def Let_def simp del: upt_Suc)

text \<open>
  Claim C1 fails on the code at a failed injection. In the example environment with the
  injection blocked, the run starts (the status with \<open>running = true\<close> is sent) and
  ends with \<open>running\<close> cleared, but \<open>stoppedAt\<close> is not stamped, no final status is
  sent and no line \<open>Agent stopped.\<close> is logged.
\<close>

theorem injection_failure_skips_final_status:
  "runAgent example_builtins blocked_env 1 ''click login'' idle_world =
     (Returned,
      \<lparr> rs = \<lparr> running = False, stopRequested = False, tabId = Some 1,
               logs = [''[1] Injecting content script...'',
                       ''[2] Failed to inject content script: Cannot access a chrome:// URL''],
               startedAt = Some 1, stoppedAt = None \<rparr>,
        trace = [Sent (AGENT_STATUS True (Some 1) None []),
                 Sent (AGENT_LOG ''[1] Injecting content script...''),
                 InjectScript 1,
                 Sent (AGENT_LOG
                   ''[2] Failed to inject content script: Cannot access a chrome:// URL'')],
        now = 2 \<rparr>)"
  by code_simp

end
